theory Spec2Isabelle
  imports
    Main
    "HOL-Library.Finite_Map"
    "HOL-Library.Char_ord"
    "HOL-Library.List_Lexorder"
    "HOL-Library.Word"
begin

section \<open>Data model\<close>

text \<open>
  The package \<open>logrusagent\<close> (file \<open>hook.go\<close>) comes in two variants: the asynchronous
  hook, which queues entries on a buffered channel drained by the goroutine \<open>subWriter\<close>,
  and the synchronous hook, which formats and writes inside \<open>Fire\<close>. Names of the
  synchronous variant carry the suffix \<open>_sync\<close>.

  A Go \<open>string\<close> is a sequence of bytes, modelled as \<open>string\<close> (a list of 8-bit
  characters). A Go map is finite and unordered, modelled as a finite map.
\<close>

text \<open>
  \<open>logrus.Fields\<close> is \<open>map[string]interface{}\<close>. The dynamic values covered by the
  model: strings, integers, booleans, the nil interface, values implementing \<open>error\<close>
  (given by the text their \<open>Error()\<close> method returns) and channels of type \<open>chan int\<close>
  (given by their address), which \<open>encoding/json\<close> cannot represent.
\<close>

datatype gvalue =
    VString string
  | VInt int
  | VBool bool
  | VNil
  | VError string
  | VChan int

type_synonym Fields = "(string, gvalue) fmap"

text \<open>\<open>logrus.Level\<close> is \<open>uint32\<close>; the constants are those of logrus.\<close>

type_synonym Level = "32 word"

definition PanicLevel :: Level where "PanicLevel = 0"
definition FatalLevel :: Level where "FatalLevel = 1"
definition ErrorLevel :: Level where "ErrorLevel = 2"
definition WarnLevel :: Level where "WarnLevel = 3"
definition InfoLevel :: Level where "InfoLevel = 4"
definition DebugLevel :: Level where "DebugLevel = 5"

text \<open>
  A \<open>time.Time\<close> is an instant with a location: seconds since the Unix epoch, the
  nanoseconds within the second (from 0 to \<open>10^9 - 1\<close>) and the offset of the location's zone
  at that instant, in seconds east of UTC.
\<close>

record Time =
  unixSec :: int
  nanosec :: int
  zoneOffset :: int

text \<open>The fields of \<open>logrus.Entry\<close> that the package reads or writes.\<close>

record Entry =
  Message :: string
  Level :: Level
  Time :: Time
  Data :: Fields

text \<open>The zero value \<open>logrus.Entry{}\<close>; its \<open>Data\<close> is the nil map, which reads as empty.\<close>

definition zeroTime :: Time where
  "zeroTime = \<lparr>unixSec = - 62135596800, nanosec = 0, zoneOffset = 0\<rparr>"

definition zeroEntry :: Entry where
  "zeroEntry = \<lparr>Message = [], Level = 0, Time = zeroTime, Data = fmempty\<rparr>"

type_synonym error = string

text \<open>
  A call returns a value, blocks the calling goroutine, or panics.
\<close>

datatype 'a outcome = Returns 'a | Blocks | Panics string

section \<open>Channels\<close>

text \<open>
  A buffered Go channel: the queued elements in FIFO order, the capacity and whether the
  channel has been closed. A send on a closed channel panics, a send on an open channel
  with room enqueues, and a send on a full open channel blocks. Closing a closed channel
  panics.
\<close>

record 'a chan =
  buf :: "'a list"
  cap :: nat
  closed :: bool

definition make_chan :: "nat \<Rightarrow> 'a chan" where
  "make_chan n = \<lparr>buf = [], cap = n, closed = False\<rparr>"

definition chan_send :: "'a chan \<Rightarrow> 'a \<Rightarrow> 'a chan outcome" where
  "chan_send c v =
     (if closed c then Panics ''send on closed channel''
      else if length (buf c) < cap c then Returns (c\<lparr>buf := buf c @ [v]\<rparr>)
      else Blocks)"

definition chan_close :: "'a chan \<Rightarrow> 'a chan outcome" where
  "chan_close c =
     (if closed c then Panics ''close of closed channel''
      else Returns (c\<lparr>closed := True\<rparr>))"

section \<open>The asynchronous hook\<close>

text \<open>
  The state behind a \<open>Hook\<close> value of the asynchronous variant: its two channels and
  whether the goroutine \<open>subWriter\<close> is still in its loop. The writer's state is the
  type parameter of the sink.
\<close>

record 'w Hook =
  channel :: "Entry chan"
  stopChan :: "unit chan"
  workerRunning :: bool
  writer :: 'w

text \<open>
  \<open>NewWithChannelSize\<close>: panics on a channel size that is not positive; otherwise makes
  both channels and starts \<open>subWriter\<close>. The stop function it returns is \<open>stop\<close> below.
\<close>

definition NewWithChannelSize :: "'w \<Rightarrow> int \<Rightarrow> 'w Hook outcome" where
  "NewWithChannelSize w chanSize =
     (if chanSize \<le> 0 then Panics ''chanSize shouldn't be zero''
      else Returns \<lparr>channel = make_chan (nat chanSize), stopChan = make_chan 1,
                    workerRunning = True, writer = w\<rparr>)"

definition New :: "'w \<Rightarrow> 'w Hook outcome" where
  "New w = NewWithChannelSize w 1024"

text \<open>The closure returned by \<open>NewWithChannelSize\<close>: closes \<open>stopChan\<close>, then \<open>channel\<close>.\<close>

definition stop :: "'w Hook \<Rightarrow> 'w Hook outcome" where
  "stop h =
     (case chan_close (stopChan h) of
        Panics m \<Rightarrow> Panics m
      | Blocks \<Rightarrow> Blocks
      | Returns sc \<Rightarrow>
          (case chan_close (channel h) of
             Panics m \<Rightarrow> Panics m
           | Blocks \<Rightarrow> Blocks
           | Returns c \<Rightarrow> Returns (h\<lparr>stopChan := sc, channel := c\<rparr>)))"

text \<open>
  \<open>Entry.Dup\<close> of logrus makes a new entry with a copy of \<open>Data\<close> and the same \<open>Time\<close>;
  the message and the level of the new entry are the zero values.
\<close>

definition Dup :: "Entry \<Rightarrow> Entry" where
  "Dup e = \<lparr>Message = [], Level = 0, Time = Time e, Data = Data e\<rparr>"

text \<open>
  \<open>Fire\<close>: duplicates the entry, copies the message and sends the copy on the channel
  with a plain send statement; the only return statement returns \<open>nil\<close>.
\<close>

definition Fire :: "'w Hook \<Rightarrow> Entry \<Rightarrow> (error option \<times> 'w Hook) outcome" where
  "Fire h e =
     (let e2 = (Dup e)\<lparr>Message := Message e\<rparr>
      in case chan_send (channel h) e2 of
           Panics m \<Rightarrow> Panics m
         | Blocks \<Rightarrow> Blocks
         | Returns c \<Rightarrow> Returns (None, h\<lparr>channel := c\<rparr>))"

text \<open>
  One iteration of the loop of \<open>subWriter\<close>. The \<open>select\<close> statement takes one of
  its ready cases; which one, when both are ready, is the runtime's choice, given here as
  an argument. A receive is ready when the buffer holds an element or the channel is
  closed. The result is \<open>None\<close> when the goroutine has returned already or the chosen
  case is not ready. The formatter is any function from an entry to bytes or an error,
  the writer any function from its state and the bytes to a new state and an optional
  error.

  Case \<open>channel\<close>: on a closed, drained channel (\<open>ok\<close> false) the goroutine returns;
  otherwise the entry is formatted, a formatting error leaves the \<open>select\<close> (\<open>break\<close>),
  and the result of \<open>Write\<close> is ignored. Case \<open>stopChan\<close>: the goroutine returns.
\<close>

datatype select_case = RecvChannel | RecvStop

definition subWriter_iter ::
  "(Entry \<Rightarrow> error + string) \<Rightarrow> ('w \<Rightarrow> string \<Rightarrow> 'w \<times> error option) \<Rightarrow>
   select_case \<Rightarrow> 'w Hook \<Rightarrow> 'w Hook option" where
  "subWriter_iter fmt wr c h =
     (if \<not> workerRunning h then None
      else case c of
        RecvChannel \<Rightarrow>
          (case buf (channel h) of
             [] \<Rightarrow> if closed (channel h) then Some (h\<lparr>workerRunning := False\<rparr>) else None
           | e # es \<Rightarrow>
               (let h1 = h\<lparr>channel := (channel h)\<lparr>buf := es\<rparr>\<rparr>
                in case fmt e of
                     Inl err \<Rightarrow> Some h1
                   | Inr data \<Rightarrow> Some (h1\<lparr>writer := fst (wr (writer h1) data)\<rparr>)))
      | RecvStop \<Rightarrow>
          (case buf (stopChan h) of
             [] \<Rightarrow> if closed (stopChan h) then Some (h\<lparr>workerRunning := False\<rparr>) else None
           | u # us \<Rightarrow> Some (h\<lparr>stopChan := (stopChan h)\<lparr>buf := us\<rparr>, workerRunning := False\<rparr>)))"

text \<open>
  What can happen to a hook between two calls: another call of \<open>Fire\<close> or an iteration
  of the worker. A call that blocks or panics, and an iteration that cannot run, leave
  the state as it is.
\<close>

datatype action = DoFire Entry | DoWork select_case

definition run_action ::
  "(Entry \<Rightarrow> error + string) \<Rightarrow> ('w \<Rightarrow> string \<Rightarrow> 'w \<times> error option) \<Rightarrow>
   'w Hook \<Rightarrow> action \<Rightarrow> 'w Hook" where
  "run_action fmt wr h a =
     (case a of
        DoFire e \<Rightarrow> (case Fire h e of Returns (r, h') \<Rightarrow> h' | Blocks \<Rightarrow> h | Panics m \<Rightarrow> h)
      | DoWork c \<Rightarrow> (case subWriter_iter fmt wr c h of Some h' \<Rightarrow> h' | None \<Rightarrow> h))"

definition run ::
  "(Entry \<Rightarrow> error + string) \<Rightarrow> ('w \<Rightarrow> string \<Rightarrow> 'w \<times> error option) \<Rightarrow>
   action list \<Rightarrow> 'w Hook \<Rightarrow> 'w Hook" where
  "run fmt wr as h = foldl (run_action fmt wr) h as"

text \<open>
  A running hook: neither channel closed, nothing sent on \<open>stopChan\<close>, the worker in
  its loop, and a channel of positive capacity that holds no more than its capacity.
  This is the state after \<open>NewWithChannelSize\<close> and as long as the stop function has
  not been called.
\<close>

definition running :: "'w Hook \<Rightarrow> bool" where
  "running h \<longleftrightarrow>
     \<not> closed (channel h) \<and> \<not> closed (stopChan h) \<and> buf (stopChan h) = [] \<and>
     workerRunning h \<and> 0 < cap (channel h) \<and> length (buf (channel h)) \<le> cap (channel h)"

text \<open>Sample data: a formatter like the tests' \<open>simpleFmter\<close> and a writer appending to a list.\<close>

definition sampleEntry :: "string \<Rightarrow> Entry" where
  "sampleEntry m = \<lparr>Message = m, Level = InfoLevel, Time = zeroTime, Data = fmempty\<rparr>"

definition sampleFmt :: "Entry \<Rightarrow> error + string" where
  "sampleFmt e = Inr (''msg: '' @ Message e)"

definition bufferWrite :: "string list \<Rightarrow> string \<Rightarrow> string list \<times> error option" where
  "bufferWrite w data = (w @ [data], None)"

definition failingFmt :: "Entry \<Rightarrow> error + string" where
  "failingFmt e = Inl ''format failed''"

definition failingWrite :: "string list \<Rightarrow> string \<Rightarrow> string list \<times> error option" where
  "failingWrite w data = (w, Some ''write failed'')"

text \<open>A hook of capacity 1 whose queue already holds one entry.\<close>

definition fullHook :: "string list Hook" where
  "fullHook =
     \<lparr>channel = \<lparr>buf = [(Dup (sampleEntry ''first''))\<lparr>Message := ''first''\<rparr>],
                 cap = 1, closed = False\<rparr>,
      stopChan = make_chan 1, workerRunning = True, writer = []\<rparr>"

section \<open>Library functions used by the formatter\<close>

subsection \<open>Decimal and hexadecimal digits\<close>

text \<open>Numbers are \<open>int\<close> throughout; the digits are those of a number that is not negative.\<close>

definition digitChar :: "int \<Rightarrow> char" where
  "digitChar d = char_of (48 + d)"

function digitsOf :: "int \<Rightarrow> string" where
  "digitsOf n = (if n < 10 then [digitChar n] else digitsOf (n div 10) @ [digitChar (n mod 10)])"
  by pat_completeness auto
termination
  by (relation "measure nat") auto

declare digitsOf.simps [simp del]

text \<open>\<open>strconv.FormatInt\<close> in base 10, which \<open>fmt\<close> and \<open>encoding/json\<close> use for integers.\<close>

definition FormatInt :: "int \<Rightarrow> string" where
  "FormatInt i = (if i < 0 then CHR ''-'' # digitsOf (- i) else digitsOf i)"

text \<open>
  \<open>appendInt\<close> of package \<open>time\<close>: a sign for a negative number, then the digits padded
  with zeros to the width.
\<close>

definition appendInt :: "int \<Rightarrow> nat \<Rightarrow> string" where
  "appendInt x width =
     (let ds = digitsOf \<bar>x\<bar>
      in (if x < 0 then ''-'' else []) @ replicate (width - length ds) CHR ''0'' @ ds)"

definition hexChar :: "int \<Rightarrow> char" where
  "hexChar d = (if d < 10 then char_of (48 + d) else char_of (87 + d))"

function hexOf :: "int \<Rightarrow> string" where
  "hexOf n = (if n < 16 then [hexChar n] else hexOf (n div 16) @ [hexChar (n mod 16)])"
  by pat_completeness auto
termination
  by (relation "measure nat") auto

declare hexOf.simps [simp del]

definition hexByte :: "char \<Rightarrow> string" where
  "hexByte c = [hexChar (of_char c div 16), hexChar (of_char c mod 16)]"

subsection \<open>Time.UTC and Time.Format with the layout TimeFormat\<close>

text \<open>\<open>Time.UTC\<close>: the same instant, in the location UTC.\<close>

definition UTC :: "Time \<Rightarrow> Time" where
  "UTC t = t\<lparr>zoneOffset := 0\<rparr>"

text \<open>
  The civil date of a day number (days since 1970-01-01) in the proleptic Gregorian
  calendar, as \<open>Time.Date\<close> computes it: year, month, day.
\<close>

definition civilDate :: "int \<Rightarrow> int \<times> int \<times> int" where
  "civilDate days =
     (let z = days + 719468;
          era = z div 146097;
          doe = z mod 146097;
          yoe = (doe - doe div 1460 + doe div 36524 - doe div 146096) div 365;
          doy = doe - (365 * yoe + yoe div 4 - yoe div 100);
          mp = (5 * doy + 2) div 153;
          d = doy - (153 * mp + 2) div 5 + 1;
          m = (if mp < 10 then mp + 3 else mp - 9);
          y = yoe + era * 400 + (if m \<le> 2 then 1 else 0)
      in (y, m, d))"

text \<open>
  The layout element \<open>.999\<close>: nothing for zero nanoseconds; otherwise a dot and the
  first three of the nine digits, then trailing zeros removed, then a trailing dot
  removed (\<open>appendNano\<close> with trimming).
\<close>

definition trimZeros :: "string \<Rightarrow> string" where
  "trimZeros b = rev (dropWhile (\<lambda>c. c = CHR ''0'') (rev b))"

definition appendNano999 :: "int \<Rightarrow> string" where
  "appendNano999 ns =
     (if ns = 0 then []
      else let b = CHR ''.'' # take 3 (appendInt ns 9);
               b' = trimZeros b
           in if b' \<noteq> [] \<and> last b' = CHR ''.'' then butlast b' else b')"

text \<open>
  The layout element \<open>Z07:00\<close>: \<open>Z\<close> for offset zero, otherwise sign, hours, colon and
  minutes of the offset; Go's integer division truncates.
\<close>

definition zoneISO8601Colon :: "int \<Rightarrow> string" where
  "zoneISO8601Colon offset =
     (if offset = 0 then ''Z''
      else let zone = (if offset < 0 then - ((- offset) div 60) else offset div 60)
           in (if zone < 0 then ''-'' else ''+'') @
              appendInt (\<bar>zone\<bar> div 60) 2 @ '':'' @ appendInt (\<bar>zone\<bar> mod 60) 2)"

text \<open>
  The date (layout \<open>2006-01-02\<close>) and the time of day (layout \<open>15:04:05\<close>) in the
  time's own location.
\<close>

definition datePart :: "Time \<Rightarrow> string" where
  "datePart t =
     (let (y, m, d) = civilDate ((unixSec t + zoneOffset t) div 86400)
      in appendInt y 4 @ ''-'' @ appendInt m 2 @ ''-'' @ appendInt d 2)"

definition clockPart :: "Time \<Rightarrow> string" where
  "clockPart t =
     (let s = (unixSec t + zoneOffset t) mod 86400
      in appendInt (s div 3600) 2 @ '':'' @ appendInt (s mod 3600 div 60) 2 @ '':'' @
         appendInt (s mod 60) 2)"

text \<open>\<open>t.Format(TimeFormat)\<close> for \<open>TimeFormat = "2006-01-02T15:04:05.999Z07:00"\<close>.\<close>

definition FormatTime :: "Time \<Rightarrow> string" where
  "FormatTime t =
     datePart t @ ''T'' @ clockPart t @ appendNano999 (nanosec t) @
     zoneISO8601Colon (zoneOffset t)"

subsection \<open>UTF-8 decoding\<close>

text \<open>
  \<open>utf8.DecodeRuneInString\<close>: the rune at the head of the string and its width in
  bytes; an invalid or truncated encoding gives \<open>RuneError\<close> with width 1 (width 0 on
  the empty string).
\<close>

definition RuneError :: int where
  "RuneError = 65533"

definition byteIn :: "int \<Rightarrow> int \<Rightarrow> char \<Rightarrow> bool" where
  "byteIn lo hi c \<longleftrightarrow> lo \<le> of_char c \<and> of_char c \<le> hi"

definition contBits :: "char \<Rightarrow> int" where
  "contBits c = of_char c mod 64"

text \<open>
  The length of the encoding that the first byte announces (0 for a byte that cannot
  start one), and the range accepted for the second byte.
\<close>

definition seqSize :: "int \<Rightarrow> nat" where
  "seqSize b0 =
     (if 194 \<le> b0 \<and> b0 \<le> 223 then 2
      else if 224 \<le> b0 \<and> b0 \<le> 239 then 3
      else if 240 \<le> b0 \<and> b0 \<le> 244 then 4
      else 0)"

definition acceptLo :: "int \<Rightarrow> int" where
  "acceptLo b0 = (if b0 = 224 then 160 else if b0 = 240 then 144 else 128)"

definition acceptHi :: "int \<Rightarrow> int" where
  "acceptHi b0 = (if b0 = 237 then 159 else if b0 = 244 then 143 else 191)"

fun DecodeRune :: "string \<Rightarrow> int \<times> nat" where
  "DecodeRune [] = (RuneError, 0)"
| "DecodeRune (c0 # s) =
     (let b0 = (of_char c0 :: int); sz = seqSize b0 in
      if b0 < 128 then (b0, 1)
      else if sz = 0 \<or> length s + 1 < sz then (RuneError, 1)
      else if \<not> byteIn (acceptLo b0) (acceptHi b0) (s ! 0) then (RuneError, 1)
      else if sz \<le> 2 then ((b0 mod 32) * 64 + contBits (s ! 0), 2)
      else if \<not> byteIn 128 191 (s ! 1) then (RuneError, 1)
      else if sz \<le> 3 then ((b0 mod 16) * 4096 + contBits (s ! 0) * 64 + contBits (s ! 1), 3)
      else if \<not> byteIn 128 191 (s ! 2) then (RuneError, 1)
      else ((b0 mod 8) * 262144 + contBits (s ! 0) * 4096 + contBits (s ! 1) * 64 +
            contBits (s ! 2), 4))"

declare DecodeRune.simps(2) [simp del]

subsection \<open>strconv.Quote and fmt.Sprint\<close>

definition dquote :: char where
  "dquote = CHR 0x22"

definition backslash :: char where
  "backslash = CHR 0x5C"

definition hexPad :: "int \<Rightarrow> nat \<Rightarrow> string" where
  "hexPad n width = (let ds = hexOf n in replicate (width - length ds) CHR ''0'' @ ds)"

text \<open>
  What the running program brings along and the source does not fix: the table
  \<open>unicode.IsPrint\<close> consults for runes above U+00FF, and the order in which a
  \<open>range\<close> statement visits the keys of a map.
\<close>

record env =
  isPrintTable :: "int \<Rightarrow> bool"
  rangeOrder :: "Fields \<Rightarrow> string list"

definition IsPrint :: "env \<Rightarrow> int \<Rightarrow> bool" where
  "IsPrint rt r =
     (if r \<le> 255 then (32 \<le> r \<and> r \<le> 126) \<or> (161 \<le> r \<and> r \<le> 255 \<and> r \<noteq> 173)
      else isPrintTable rt r)"

text \<open>
  \<open>appendEscapedRune\<close> for the double quote: the rune \<open>r\<close>, whose UTF-8 encoding is
  \<open>bytes\<close>, as it stands inside a quoted string.
\<close>

definition appendEscapedRune :: "env \<Rightarrow> int \<Rightarrow> string \<Rightarrow> string" where
  "appendEscapedRune rt r bytes =
     (if r = 34 \<or> r = 92 then [backslash, char_of r]
      else if IsPrint rt r then bytes
      else if r = 7 then [backslash, CHR ''a'']
      else if r = 8 then [backslash, CHR ''b'']
      else if r = 12 then [backslash, CHR ''f'']
      else if r = 10 then [backslash, CHR ''n'']
      else if r = 13 then [backslash, CHR ''r'']
      else if r = 9 then [backslash, CHR ''t'']
      else if r = 11 then [backslash, CHR ''v'']
      else if r < 32 \<or> r = 127 then backslash # CHR ''x'' # hexPad r 2
      else if r < 65536 then backslash # CHR ''u'' # hexPad r 4
      else backslash # CHR ''U'' # hexPad r 8)"

fun quoteBody :: "env \<Rightarrow> string \<Rightarrow> string" where
  "quoteBody rt [] = []"
| "quoteBody rt (c # s) =
     (let (r, width) = (if (of_char c :: int) \<ge> 128 then DecodeRune (c # s) else (of_char c, 1))
      in if width = 1 \<and> r = RuneError then backslash # CHR ''x'' # hexByte c @ quoteBody rt s
         else appendEscapedRune rt r (take width (c # s)) @ quoteBody rt (drop (width - 1) s))"

text \<open>\<open>strconv.Quote\<close>, which is what \<open>fmt.Sprintf("%q", s)\<close> gives for a string.\<close>

definition Quote :: "env \<Rightarrow> string \<Rightarrow> string" where
  "Quote rt s = dquote # quoteBody rt s @ [dquote]"

text \<open>\<open>fmt.Sprint\<close> of one value.\<close>

definition Sprint :: "gvalue \<Rightarrow> string" where
  "Sprint v =
     (case v of
        VString s \<Rightarrow> s
      | VInt i \<Rightarrow> FormatInt i
      | VBool b \<Rightarrow> (if b then ''true'' else ''false'')
      | VNil \<Rightarrow> ''<nil>''
      | VError m \<Rightarrow> m
      | VChan a \<Rightarrow> (if a = 0 then ''<nil>'' else ''0x'' @ hexOf a))"

subsection \<open>json.Marshal of a field map\<close>

text \<open>
  The string encoder of \<open>encoding/json\<close> with HTML escaping, the default of
  \<open>json.Marshal\<close>: ASCII bytes from the space on are copied, except the double quote,
  the backslash and \<open><\<close>, \<open>>\<close>, \<open>&\<close>; an invalid byte becomes the escape of U+FFFD; U+2028 and
  U+2029 are escaped; other multi-byte runes are copied.
\<close>

definition htmlSafe :: "char \<Rightarrow> bool" where
  "htmlSafe c \<longleftrightarrow> (32 :: int) \<le> of_char c \<and> (of_char c :: int) < 128 \<and>
     c \<noteq> dquote \<and> c \<noteq> backslash \<and> c \<noteq> CHR ''<'' \<and> c \<noteq> CHR ''>'' \<and> c \<noteq> CHR ''&''"

definition jsonEscapeByte :: "char \<Rightarrow> string" where
  "jsonEscapeByte c =
     (if c = backslash \<or> c = dquote then [backslash, c]
      else if c = CHR 0x08 then [backslash, CHR ''b'']
      else if c = CHR 0x0C then [backslash, CHR ''f'']
      else if c = CHR 0x0A then [backslash, CHR ''n'']
      else if c = CHR 0x0D then [backslash, CHR ''r'']
      else if c = CHR 0x09 then [backslash, CHR ''t'']
      else backslash # ''u00'' @ hexByte c)"

fun jsonStringBody :: "string \<Rightarrow> string" where
  "jsonStringBody [] = []"
| "jsonStringBody (c # s) =
     (if (of_char c :: int) < 128
      then (if htmlSafe c then [c] else jsonEscapeByte c) @ jsonStringBody s
      else let (r, size) = DecodeRune (c # s)
           in if r = RuneError \<and> size = 1 then backslash # ''ufffd'' @ jsonStringBody s
              else if r = 8232 \<or> r = 8233
                then backslash # ''u202'' @ [hexChar (r mod 16)] @ jsonStringBody (drop (size - 1) s)
              else take size (c # s) @ jsonStringBody (drop (size - 1) s))"

definition appendString :: "string \<Rightarrow> string" where
  "appendString s = dquote # jsonStringBody s @ [dquote]"

text \<open>
  The encoding of one value: an error value of the standard library is a pointer to a
  struct without exported fields and encodes as \<open>{}\<close>; a channel is refused.
\<close>

definition jsonValue :: "gvalue \<Rightarrow> error + string" where
  "jsonValue v =
     (case v of
        VString s \<Rightarrow> Inr (appendString s)
      | VInt i \<Rightarrow> Inr (FormatInt i)
      | VBool b \<Rightarrow> Inr (if b then ''true'' else ''false'')
      | VNil \<Rightarrow> Inr ''null''
      | VError m \<Rightarrow> Inr ''{}''
      | VChan a \<Rightarrow> Inl ''json: unsupported type: chan int'')"

text \<open>A map index expression: the zero value (nil) for a missing key.\<close>

definition index :: "Fields \<Rightarrow> string \<Rightarrow> gvalue" where
  "index m k = (case fmlookup m k of None \<Rightarrow> VNil | Some v \<Rightarrow> v)"

fun encodeMembers :: "Fields \<Rightarrow> string list \<Rightarrow> error + string list" where
  "encodeMembers m [] = Inr []"
| "encodeMembers m (k # ks) =
     (case jsonValue (index m k) of
        Inl err \<Rightarrow> Inl err
      | Inr v \<Rightarrow>
          (case encodeMembers m ks of
             Inl err \<Rightarrow> Inl err
           | Inr ms \<Rightarrow> Inr ((appendString k @ '':'' @ v) # ms)))"

fun joinComma :: "string list \<Rightarrow> string" where
  "joinComma [] = []"
| "joinComma [x] = x"
| "joinComma (x # y # ys) = x @ '','' @ joinComma (y # ys)"

text \<open>\<open>json.Marshal\<close> of a non-nil map: the members in sorted key order between braces.\<close>

definition json_Marshal :: "Fields \<Rightarrow> error + string" where
  "json_Marshal m =
     (case encodeMembers m (sorted_list_of_fset (fmdom m)) of
        Inl err \<Rightarrow> Inl err
      | Inr ms \<Rightarrow> Inr (''{'' @ joinComma ms @ ''}''))"

section \<open>The entry pool\<close>

text \<open>
  \<open>entryPool\<close> is a \<open>sync.Pool\<close>: \<open>Get\<close> removes an entry from the pool, or makes a
  zero entry with \<open>New\<close> when the pool is empty; \<open>Put\<close> adds an entry. The pool is
  the list of the entries it holds.
\<close>

type_synonym pool = "Entry list"

definition pool_Get :: "pool \<Rightarrow> Entry \<times> pool" where
  "pool_Get p = (case p of [] \<Rightarrow> (zeroEntry, []) | x # xs \<Rightarrow> (x, xs))"

definition pool_Put :: "Entry \<Rightarrow> pool \<Rightarrow> pool" where
  "pool_Put x p = x # p"

text \<open>
  \<open>copyEntry\<close>: takes an entry from the pool, copies message, level and time, and
  gives it a new map filled first from \<open>fields\<close> (here \<open>flds\<close>), then from the entry's data.
\<close>

definition copyEntry :: "Entry \<Rightarrow> Fields \<Rightarrow> pool \<Rightarrow> Entry \<times> pool" where
  "copyEntry e flds p =
     (let (ne, p') = pool_Get p
      in (ne\<lparr>Message := Message e, Level := Level e, Time := Time e,
             Data := (fmempty ++\<^sub>f flds) ++\<^sub>f Data e\<rparr>, p'))"

definition releaseEntry :: "Entry \<Rightarrow> pool \<Rightarrow> pool" where
  "releaseEntry e p = pool_Put e p"

section \<open>The formatter\<close>

text \<open>
  Maps are reference values: a \<open>logrus.Fields\<close> held by a caller or a formatter is
  \<open>nil\<close> or the address of a map in the heap. Reading a nil map finds no key.
\<close>

type_synonym heap = "nat \<Rightarrow> Fields"

definition deref :: "heap \<Rightarrow> nat option \<Rightarrow> Fields" where
  "deref hp r = (case r of None \<Rightarrow> fmempty | Some a \<Rightarrow> hp a)"

text \<open>
  \<open>LogAgentFormatter\<close> of the asynchronous variant; the embedded \<open>logrus.FieldMap\<close> is
  never read. The synchronous variant has the field \<open>Fields\<close> only.
\<close>

record LogAgentFormatter =
  Fields :: "nat option"
  QuoteEmptyFields :: bool
  DisableSorting :: bool

record LogAgentFormatter_sync =
  Fields_sync :: "nat option"

definition FieldKeyTime :: string where "FieldKeyTime = ''@timestamp''"
definition FieldKeyMsg :: string where "FieldKeyMsg = ''message''"
definition FieldKeyLevel :: string where "FieldKeyLevel = ''level''"
definition FieldKeyCategory :: string where "FieldKeyCategory = ''category''"

definition logstashFields :: Fields where
  "logstashFields = fmap_of_list [(''@version'', VString ''1'')]"

definition getLevelString :: "Level \<Rightarrow> string" where
  "getLevelString level =
     (if level = DebugLevel then ''DEBUG''
      else if level = InfoLevel then ''INFO''
      else if level = WarnLevel then ''WARN''
      else if level = ErrorLevel then ''ERROR''
      else if level = FatalLevel then ''FATAL''
      else if level = PanicLevel then ''PANIC''
      else ''UNKNOWN'')"

text \<open>
  \<open>DefaultFormatter\<close> (the same in both variants): for each key of \<open>logstashFields\<close>
  missing in the argument \<open>fields\<close> (here \<open>flds\<close>), stores the default in it, which is the caller's map; a
  store into a nil map panics. The formatter returned holds the same reference.
\<close>

fun setDefaults :: "string list \<Rightarrow> nat option \<Rightarrow> heap \<Rightarrow> heap outcome" where
  "setDefaults [] flds hp = Returns hp"
| "setDefaults (k # ks) flds hp =
     (if k |\<in>| fmdom (deref hp flds) then setDefaults ks flds hp
      else case flds of
             None \<Rightarrow> Panics ''assignment to entry in nil map''
           | Some a \<Rightarrow> setDefaults ks flds (hp(a := fmupd k (index logstashFields k) (hp a))))"

definition DefaultFormatter :: "nat option \<Rightarrow> heap \<Rightarrow> (LogAgentFormatter \<times> heap) outcome" where
  "DefaultFormatter flds hp =
     (case setDefaults (sorted_list_of_fset (fmdom logstashFields)) flds hp of
        Panics m \<Rightarrow> Panics m
      | Blocks \<Rightarrow> Blocks
      | Returns hp' \<Rightarrow>
          Returns (\<lparr>Fields = flds, QuoteEmptyFields = False, DisableSorting = False\<rparr>, hp'))"

definition DefaultFormatter_sync ::
  "nat option \<Rightarrow> heap \<Rightarrow> (LogAgentFormatter_sync \<times> heap) outcome" where
  "DefaultFormatter_sync flds hp =
     (case setDefaults (sorted_list_of_fset (fmdom logstashFields)) flds hp of
        Panics m \<Rightarrow> Panics m
      | Blocks \<Rightarrow> Blocks
      | Returns hp' \<Rightarrow> Returns (\<lparr>Fields_sync = flds\<rparr>, hp'))"

text \<open>
  \<open>needsQuoting\<close>. The loop ranges over the runes of the text; a byte from 128 on
  belongs to a rune from 128 on (or to an invalid encoding, read as U+FFFD), which is
  outside every range tested, as the byte itself is: the test by bytes is the same.
\<close>

definition safeChar :: "char \<Rightarrow> bool" where
  "safeChar ch \<longleftrightarrow>
     (ch \<ge> CHR ''a'' \<and> ch \<le> CHR ''z'') \<or>
     (ch \<ge> CHR ''A'' \<and> ch \<le> CHR ''Z'') \<or>
     (ch \<ge> CHR ''0'' \<and> ch \<le> CHR ''9'') \<or>
     ch = CHR ''-'' \<or> ch = CHR ''.'' \<or> ch = CHR ''_'' \<or> ch = CHR ''/'' \<or> ch = CHR ''@'' \<or>
     ch = CHR ''^'' \<or> ch = CHR ''+''"

fun anyUnsafe :: "string \<Rightarrow> bool" where
  "anyUnsafe [] = False"
| "anyUnsafe (ch # text) = (if \<not> safeChar ch then True else anyUnsafe text)"

definition needsQuoting :: "LogAgentFormatter \<Rightarrow> string \<Rightarrow> bool" where
  "needsQuoting f text =
     (if QuoteEmptyFields f \<and> length text = 0 then True else anyUnsafe text)"

text \<open>\<open>appendValue\<close> and \<open>appendKeyValue\<close>: the buffer goes in and comes out.\<close>

definition stringVal :: "gvalue \<Rightarrow> string" where
  "stringVal v = (case v of VString s \<Rightarrow> s | _ \<Rightarrow> Sprint v)"

definition appendValue :: "env \<Rightarrow> LogAgentFormatter \<Rightarrow> string \<Rightarrow> gvalue \<Rightarrow> string" where
  "appendValue rt f b v =
     (if \<not> needsQuoting f (stringVal v) then b @ stringVal v
      else b @ Quote rt (stringVal v))"

definition appendKeyValue ::
  "env \<Rightarrow> LogAgentFormatter \<Rightarrow> string \<Rightarrow> string \<Rightarrow> gvalue \<Rightarrow> string" where
  "appendKeyValue rt f b key v =
     (let b1 = (if length b > 0 then b @ '' '' else b);
          b2 = b1 @ key;
          b3 = b2 @ ''=''
      in appendValue rt f b3 v)"

text \<open>The type switch on a field value: an error gives its text.\<close>

definition errorText :: "gvalue \<Rightarrow> gvalue" where
  "errorText v = (case v of VError m \<Rightarrow> VString m | _ \<Rightarrow> v)"

text \<open>
  The first loop of \<open>Format\<close>: the fields of the copied entry whose key is a key of the
  formatter's \<open>Fields\<close> or is \<open>category\<close> go to \<open>data\<close>, the others to \<open>extras\<close>.
\<close>

definition knownKey :: "Fields \<Rightarrow> string \<Rightarrow> bool" where
  "knownKey flds k \<longleftrightarrow> k |\<in>| fmdom flds \<or> k = FieldKeyCategory"

definition splitData :: "Fields \<Rightarrow> Fields \<Rightarrow> Fields \<times> Fields" where
  "splitData flds entryData =
     (fmmap errorText (fmfilter (\<lambda>k. knownKey flds k) entryData),
      fmmap errorText (fmfilter (\<lambda>k. \<not> knownKey flds k) entryData))"

text \<open>The message: with extras, the entry's message and one token for each extra.\<close>

definition extraKeys :: "env \<Rightarrow> LogAgentFormatter \<Rightarrow> Fields \<Rightarrow> string list" where
  "extraKeys rt f extras =
     (if \<not> DisableSorting f then sorted_list_of_fset (fmdom extras) else rangeOrder rt extras)"

definition messageWithExtras :: "env \<Rightarrow> LogAgentFormatter \<Rightarrow> string \<Rightarrow> Fields \<Rightarrow> string" where
  "messageWithExtras rt f msg extras =
     (if fcard (fmdom extras) > 0
      then foldl (\<lambda>b k. appendKeyValue rt f b k (index extras k)) msg (extraKeys rt f extras)
      else msg)"

text \<open>The map handed to \<open>json.Marshal\<close> by the asynchronous \<open>Format\<close>.\<close>

definition formatData :: "env \<Rightarrow> LogAgentFormatter \<Rightarrow> heap \<Rightarrow> Entry \<Rightarrow> Fields" where
  "formatData rt f hp entry =
     (let (data, extras) = splitData (deref hp (Fields f)) (Data entry);
          data1 = fmupd FieldKeyTime (VString (FormatTime (UTC (Time entry)))) data;
          data2 = fmupd FieldKeyLevel (VString (getLevelString (Level entry))) data1
      in fmupd FieldKeyMsg (VString (messageWithExtras rt f (Message entry) extras)) data2)"

text \<open>
  \<open>Format\<close> of the asynchronous variant. The release of the copied entry is deferred,
  so it runs on every return. The result is the error or the bytes, and the pool.
\<close>

definition Format ::
  "env \<Rightarrow> LogAgentFormatter \<Rightarrow> heap \<Rightarrow> Entry \<Rightarrow> pool \<Rightarrow> (error + string) \<times> pool" where
  "Format rt f hp e p =
     (let (entry, p1) = copyEntry e (deref hp (Fields f)) p
      in case json_Marshal (formatData rt f hp entry) of
           Inl err \<Rightarrow> (Inl (''Failed to marshal fields to JSON, '' @ err), releaseEntry entry p1)
         | Inr serialized \<Rightarrow> (Inr (serialized @ [CHR 0x0A]), releaseEntry entry p1))"

text \<open>
  \<open>Format\<close> of the synchronous variant: every field is a top-level field, the time is
  formatted in its own location, and \<open>releaseEntry\<close> stands after the error return.
\<close>

definition formatData_sync :: "Entry \<Rightarrow> Fields" where
  "formatData_sync entry =
     (let data = fmmap errorText (Data entry);
          data1 = fmupd FieldKeyTime (VString (FormatTime (Time entry))) data;
          data2 = fmupd FieldKeyLevel (VString (getLevelString (Level entry))) data1
      in fmupd FieldKeyMsg (VString (Message entry)) data2)"

definition Format_sync ::
  "LogAgentFormatter_sync \<Rightarrow> heap \<Rightarrow> Entry \<Rightarrow> pool \<Rightarrow> (error + string) \<times> pool" where
  "Format_sync f hp e p =
     (let (entry, p1) = copyEntry e (deref hp (Fields_sync f)) p
      in case json_Marshal (formatData_sync entry) of
           Inl err \<Rightarrow> (Inl (''Failed to marshal fields to JSON, '' @ err), p1)
         | Inr serialized \<Rightarrow> (Inr (serialized @ [CHR 0x0A]), releaseEntry entry p1))"

section \<open>Notions of the specification and sample data\<close>

text \<open>The character set \<open>[A-Za-z0-9\-._/@^+]\<close> of the quoting rule, written out.\<close>

definition safeSet :: "char set" where
  "safeSet = set ''abcdefghijklmnopqrstuvwxyzABCDEFGHIJKLMNOPQRSTUVWXYZ0123456789-._/@^+''"

text \<open>
  A layout in the notation of the specification's pattern: \<open>d\<close> stands for one decimal
  digit, every other character for itself. The pattern \<open>YYYY-MM-DDTHH:mm:ss.sssZ\<close> is
  \<open>isoMillisLayout\<close>.
\<close>

definition isDigit :: "char \<Rightarrow> bool" where
  "isDigit c \<longleftrightarrow> CHR ''0'' \<le> c \<and> c \<le> CHR ''9''"

definition matchesLayout :: "string \<Rightarrow> string \<Rightarrow> bool" where
  "matchesLayout pat s = list_all2 (\<lambda>p c. if p = CHR ''d'' then isDigit c else c = p) pat s"

definition isoMillisLayout :: string where
  "isoMillisLayout = ''dddd-dd-ddTdd:dd:dd.dddZ''"

text \<open>
  Reading JSON. The reader accepts the JSON objects whose members are strings, integers,
  \<open>true\<close>, \<open>false\<close> and \<open>null\<close>, written without white space, and gives the
  members in order, with the escapes of keys and strings decoded (an escape
  \<open>\uXXXX\<close> on its own, a surrogate as U+FFFD). Inside a string it refuses control
  characters and unknown escapes; a number has no leading zero. What it accepts is
  JSON. The members are read with a bound on their number, which \<open>parseObject\<close> sets
  to the length of the text.
\<close>

datatype jvalue = JString string | JNumber int | JTrue | JFalse | JNull

definition hexVal :: "char \<Rightarrow> int option" where
  "hexVal c =
     (if CHR ''0'' \<le> c \<and> c \<le> CHR ''9'' then Some (of_char c - 48)
      else if CHR ''a'' \<le> c \<and> c \<le> CHR ''f'' then Some (of_char c - 87)
      else if CHR ''A'' \<le> c \<and> c \<le> CHR ''F'' then Some (of_char c - 55)
      else None)"

definition hex4 :: "string \<Rightarrow> int option" where
  "hex4 s =
     (case map hexVal s of
        [Some a, Some b, Some c, Some d] \<Rightarrow> Some (((a * 16 + b) * 16 + c) * 16 + d)
      | _ \<Rightarrow> None)"

definition EncodeRune :: "int \<Rightarrow> string" where
  "EncodeRune r =
     (if r < 128 then [char_of r]
      else if r < 2048 then [char_of (192 + r div 64), char_of (128 + r mod 64)]
      else if 55296 \<le> r \<and> r \<le> 57343 then [CHR 0xEF, CHR 0xBF, CHR 0xBD]
      else [char_of (224 + r div 4096), char_of (128 + r div 64 mod 64), char_of (128 + r mod 64)])"

definition unescape :: "char \<Rightarrow> char option" where
  "unescape e =
     (if e = dquote \<or> e = backslash \<or> e = CHR ''/'' then Some e
      else if e = CHR ''b'' then Some (CHR 0x08)
      else if e = CHR ''f'' then Some (CHR 0x0C)
      else if e = CHR ''n'' then Some (CHR 0x0A)
      else if e = CHR ''r'' then Some (CHR 0x0D)
      else if e = CHR ''t'' then Some (CHR 0x09)
      else None)"

definition prepend :: "string \<Rightarrow> (string \<times> string) option \<Rightarrow> (string \<times> string) option" where
  "prepend xs r = (case r of None \<Rightarrow> None | Some (d, rest) \<Rightarrow> Some (xs @ d, rest))"

fun stringBody :: "string \<Rightarrow> (string \<times> string) option" where
  "stringBody [] = None"
| "stringBody (c # s) =
     (if c = dquote then Some ([], s)
      else if c = backslash then
        (case s of
           [] \<Rightarrow> None
         | e # s1 \<Rightarrow>
             if e = CHR ''u'' then
               (case hex4 (take 4 s1) of
                  None \<Rightarrow> None
                | Some r \<Rightarrow> prepend (EncodeRune r) (stringBody (drop 4 s1)))
             else
               (case unescape e of
                  None \<Rightarrow> None
                | Some ch \<Rightarrow> prepend [ch] (stringBody s1)))
      else if (of_char c :: int) < 32 then None
      else prepend [c] (stringBody s))"

declare stringBody.simps [simp del]

definition intOfDigits :: "string \<Rightarrow> int" where
  "intOfDigits ds = foldl (\<lambda>a c. a * 10 + (of_char c - 48)) 0 ds"

definition parseNumber :: "string \<Rightarrow> (jvalue \<times> string) option" where
  "parseNumber s =
     (let neg = (s \<noteq> [] \<and> hd s = CHR ''-'');
          s1 = (if neg then tl s else s);
          ds = takeWhile isDigit s1;
          rest = dropWhile isDigit s1
      in if ds = [] \<or> (length ds > 1 \<and> hd ds = CHR ''0'') then None
         else Some (JNumber (if neg then - intOfDigits ds else intOfDigits ds), rest))"

definition parseValue :: "string \<Rightarrow> (jvalue \<times> string) option" where
  "parseValue s =
     (case s of
        [] \<Rightarrow> None
      | c # t \<Rightarrow>
          if c = dquote then
            (case stringBody t of None \<Rightarrow> None | Some (d, r) \<Rightarrow> Some (JString d, r))
          else if c = CHR ''t'' then (if take 4 s = ''true'' then Some (JTrue, drop 4 s) else None)
          else if c = CHR ''f'' then (if take 5 s = ''false'' then Some (JFalse, drop 5 s) else None)
          else if c = CHR ''n'' then (if take 4 s = ''null'' then Some (JNull, drop 4 s) else None)
          else parseNumber s)"

definition parseString :: "string \<Rightarrow> (string \<times> string) option" where
  "parseString s = (case s of [] \<Rightarrow> None | c # t \<Rightarrow> if c = dquote then stringBody t else None)"

fun parseMembers :: "nat \<Rightarrow> string \<Rightarrow> ((string \<times> jvalue) list \<times> string) option" where
  "parseMembers 0 s = None"
| "parseMembers (Suc n) s =
     (case parseString s of
        None \<Rightarrow> None
      | Some (k, s1) \<Rightarrow>
          (case s1 of
             [] \<Rightarrow> None
           | c # s2 \<Rightarrow>
               if c \<noteq> CHR '':'' then None
               else (case parseValue s2 of
                       None \<Rightarrow> None
                     | Some (v, s3) \<Rightarrow>
                         (case s3 of
                            [] \<Rightarrow> None
                          | d # s4 \<Rightarrow>
                              if d = CHR ''}'' then Some ([(k, v)], s4)
                              else if d = CHR '','' then
                                (case parseMembers n s4 of
                                   None \<Rightarrow> None
                                 | Some (kvs, r) \<Rightarrow> Some ((k, v) # kvs, r))
                              else None))))"

definition parseObject :: "string \<Rightarrow> (string \<times> jvalue) list option" where
  "parseObject s =
     (case s of
        [] \<Rightarrow> None
      | c # t \<Rightarrow>
          if c \<noteq> CHR ''{'' then None
          else if t = ''}'' then Some []
          else (case parseMembers (length t) t of
                  None \<Rightarrow> None
                | Some (kvs, r) \<Rightarrow> if r = [] then Some kvs else None))"

text \<open>
  What the reader gets back for a string written by \<open>appendString\<close>: the string itself,
  except that every byte of an invalid encoding has become U+FFFD.
\<close>

fun decodedOf :: "string \<Rightarrow> string" where
  "decodedOf [] = []"
| "decodedOf (c # s) =
     (if (of_char c :: int) < 128 then c # decodedOf s
      else let (r, size) = DecodeRune (c # s)
           in if r = RuneError \<and> size = 1 then EncodeRune RuneError @ decodedOf s
              else if r = 8232 \<or> r = 8233 then EncodeRune r @ decodedOf (drop (size - 1) s)
              else take size (c # s) @ decodedOf (drop (size - 1) s))"

text \<open>The last \<open>w\<close> decimal digits of a number, with leading zeros.\<close>

fun padDigits :: "nat \<Rightarrow> int \<Rightarrow> string" where
  "padDigits 0 n = []"
| "padDigits (Suc w) n = padDigits w (n div 10) @ [digitChar (n mod 10)]"

text \<open>
  The extras of an entry under given static fields: its fields whose key is neither a
  static key nor \<open>category\<close>, errors as their text. One token of the message for one
  extra, and the tokens in sorted key order.
\<close>

definition entryExtras :: "Fields \<Rightarrow> Entry \<Rightarrow> Fields" where
  "entryExtras static e = fmmap errorText (fmfilter (\<lambda>k. \<not> knownKey static k) (Data e))"

definition extraToken :: "env \<Rightarrow> LogAgentFormatter \<Rightarrow> Fields \<Rightarrow> string \<Rightarrow> string" where
  "extraToken rt f extras k = '' '' @ k @ ''='' @ appendValue rt f [] (index extras k)"

definition extraTokens :: "env \<Rightarrow> LogAgentFormatter \<Rightarrow> Fields \<Rightarrow> string" where
  "extraTokens rt f extras =
     concat (map (extraToken rt f extras) (sorted_list_of_fset (fmdom extras)))"

text \<open>
  The top-level field map in the words of the specification: the static fields overlaid
  by the entry's fields whose key is a static key or \<open>category\<close>.
\<close>

definition overlaidFields :: "Fields \<Rightarrow> Entry \<Rightarrow> Fields" where
  "overlaidFields static e = static ++\<^sub>f fmfilter (\<lambda>k. knownKey static k) (Data e)"

text \<open>
  Sample data. The entry of the repository's test with a given message; a formatter as
  \<open>DefaultFormatter\<close> returns it for the map at address 0; the heap after
  \<open>DefaultFormatter\<close> on an empty map; a heap whose static fields have the keys \<open>level\<close>
  and \<open>cause\<close>, and an entry with fields of these names; a formatter made without
  \<open>DefaultFormatter\<close>, with no static fields, and an entry without fields.
\<close>

definition keysEntry :: "string \<Rightarrow> Entry" where
  "keysEntry m = \<lparr>Message = m, Level = DebugLevel,
      Time = \<lparr>unixSec = 1532183682, nanosec = 120000000, zoneOffset = 32400\<rparr>,
      Data = fmap_of_list [(''category'', VString ''test''), (''Key2'', VString ''Value2''),
                           (''Key1'', VString ''Value1'')]\<rparr>"

definition defaultFmt :: LogAgentFormatter where
  "defaultFmt = \<lparr>Fields = Some 0, QuoteEmptyFields = False, DisableSorting = False\<rparr>"

definition versionHeap :: heap where
  "versionHeap = (\<lambda>a. if a = 0 then fmap_of_list [(''@version'', VString ''1'')] else fmempty)"

definition bareFmt :: LogAgentFormatter where
  "bareFmt = \<lparr>Fields = None, QuoteEmptyFields = False, DisableSorting = False\<rparr>"

definition helloEntry :: Entry where
  "helloEntry = \<lparr>Message = ''Hello World!'', Level = InfoLevel,
      Time = \<lparr>unixSec = 1532183682, nanosec = 0, zoneOffset = 0\<rparr>, Data = fmempty\<rparr>"

definition levelHeap :: heap where
  "levelHeap =
     (\<lambda>a. if a = 0
          then fmap_of_list [(''@version'', VString ''1''), (''level'', VString ''custom''),
                             (''cause'', VString ''none'')]
          else fmempty)"

definition levelEntry :: Entry where
  "levelEntry = \<lparr>Message = ''failed'', Level = InfoLevel,
      Time = \<lparr>unixSec = 1532183682, nanosec = 0, zoneOffset = 0\<rparr>,
      Data = fmap_of_list [(''level'', VString ''mine''), (''cause'', VError ''boom'')]\<rparr>"

text \<open>
  A heap of empty maps, one in which the map at address 0 is \<open>{"app_id": "foo"}\<close>, an
  environment whose \<open>range\<close> visits keys in sorted order, and an entry with a channel
  as its \<open>category\<close>.
\<close>

definition emptyHeap :: heap where
  "emptyHeap = (\<lambda>a. fmempty)"

definition appHeap :: heap where
  "appHeap = (\<lambda>a. if a = 0 then fmap_of_list [(''app_id'', VString ''foo'')] else fmempty)"

definition sortedEnv :: env where
  "sortedEnv = \<lparr>isPrintTable = (\<lambda>r. False), rangeOrder = (\<lambda>m. sorted_list_of_fset (fmdom m))\<rparr>"

definition chanEntry :: Entry where
  "chanEntry = \<lparr>Message = ''done'', Level = InfoLevel,
      Time = \<lparr>unixSec = 1532183682, nanosec = 0, zoneOffset = 0\<rparr>,
      Data = fmap_of_list [(''category'', VChan 824633802880)]\<rparr>"

section \<open>Properties of the asynchronous hook\<close>

lemma fullHook_reached:
  "\<exists>h0. NewWithChannelSize [] 1 = Returns h0 \<and>
        Fire h0 (sampleEntry ''first'') = Returns (None, fullHook)"
  by (simp add: NewWithChannelSize_def Fire_def chan_send_def make_chan_def fullHook_def
      Dup_def sampleEntry_def Let_def)

lemma stop_closes_channel:
  "stop h = Returns h' \<Longrightarrow> closed (channel h')"
  by (auto simp: stop_def chan_close_def split: if_splits outcome.splits)

lemma Fire_on_closed:
  "closed (channel h) \<Longrightarrow> Fire h e = Panics ''send on closed channel''"
  by (simp add: Fire_def chan_send_def Let_def)

lemma Fire_keeps_closed:
  "Fire h e = Returns (r, h') \<Longrightarrow> closed (channel h') = closed (channel h)"
  by (auto simp: Fire_def chan_send_def Let_def split: if_splits)

lemma subWriter_iter_keeps_closed:
  "subWriter_iter fmt wr c h = Some h' \<Longrightarrow> closed (channel h') = closed (channel h)"
  by (auto simp: subWriter_iter_def Let_def
      split: if_splits select_case.splits list.splits sum.splits)

lemma run_action_keeps_closed:
  "closed (channel (run_action fmt wr h a)) = closed (channel h)"
  by (auto simp: run_action_def Fire_keeps_closed subWriter_iter_keeps_closed
      split: action.splits outcome.splits option.splits)

lemma run_keeps_closed:
  "closed (channel (run fmt wr as h)) = closed (channel h)"
  unfolding run_def
  by (induction as arbitrary: h) (simp_all add: run_action_keeps_closed)

text \<open>
  Claim C4. Once the stop function of the asynchronous hook has been called and has
  returned, every later call of \<open>Fire\<close> panics with \<open>send on closed channel\<close>, whatever
  the entry and whatever calls of \<open>Fire\<close> and iterations of the worker come in between;
  it never returns.
\<close>

theorem Fire_after_stop_panics:
  assumes "stop h = Returns h'"
  shows "Fire (run fmt wr as h') e = Panics ''send on closed channel'' \<and>
         (\<forall>r. Fire (run fmt wr as h') e \<noteq> Returns r)"
proof -
  from assms have "closed (channel h')"
    by (rule stop_closes_channel)
  then have "closed (channel (run fmt wr as h'))"
    by (simp add: run_keeps_closed)
  then have "Fire (run fmt wr as h') e = Panics ''send on closed channel''"
    by (rule Fire_on_closed)
  then show ?thesis
    by simp
qed

theorem Fire_after_stop_panics_witness:
  "stop fullHook = Returns (fullHook\<lparr>stopChan := (make_chan 1)\<lparr>closed := True\<rparr>,
       channel := (channel fullHook)\<lparr>closed := True\<rparr>\<rparr>) \<and>
   Fire (run sampleFmt bufferWrite [DoWork RecvChannel, DoFire (sampleEntry ''second'')]
          (fullHook\<lparr>stopChan := (make_chan 1)\<lparr>closed := True\<rparr>,
             channel := (channel fullHook)\<lparr>closed := True\<rparr>\<rparr>))
     (sampleEntry ''third'') = Panics ''send on closed channel''"
proof -
  have s: "stop fullHook = Returns (fullHook\<lparr>stopChan := (make_chan 1)\<lparr>closed := True\<rparr>,
       channel := (channel fullHook)\<lparr>closed := True\<rparr>\<rparr>)"
    by (simp add: stop_def chan_close_def fullHook_def make_chan_def)
  from Fire_after_stop_panics [OF s] s show ?thesis
    by blast
qed

lemma Fire_cases:
  "\<not> closed (channel h) \<Longrightarrow>
   Fire h e =
     (if length (buf (channel h)) < cap (channel h)
      then Returns (None, h\<lparr>channel := (channel h)\<lparr>buf := buf (channel h) @
                                  [(Dup e)\<lparr>Message := Message e\<rparr>]\<rparr>\<rparr>)
      else Blocks)"
  by (simp add: Fire_def chan_send_def Let_def)

lemma subWriter_iter_RecvChannel:
  assumes "workerRunning h" and "buf (channel h) = x # xs"
  shows "\<exists>h1. subWriter_iter fmt wr RecvChannel h = Some h1 \<and>
              channel h1 = (channel h)\<lparr>buf := xs\<rparr>"
  using assms by (auto simp: subWriter_iter_def Let_def split: sum.splits)

text \<open>
  Claim C2, as stated: on a running hook whose queue is full, \<open>Fire\<close> returns at once
  and the entry is dropped. It does not: \<open>Fire\<close> sends with a plain send statement, and
  on the full queue of \<open>fullHook\<close> (the state after one \<open>Fire\<close> on a new hook of
  capacity 1) the call blocks.
\<close>

theorem Fire_full_queue_counterexample:
  "\<not> closed (channel fullHook) \<and>
   length (buf (channel fullHook)) = cap (channel fullHook) \<and>
   Fire fullHook (sampleEntry ''second'') = Blocks \<and>
   Fire fullHook (sampleEntry ''second'') \<noteq> Returns (None, fullHook)"
  by (simp add: Fire_def chan_send_def fullHook_def Let_def)

text \<open>
  Claim C2, amended. On a hook that has not been stopped, \<open>Fire\<close> returns at once
  exactly when the queue has room; on a full queue it blocks. It never drops the entry:
  whenever it returns, the copy of the entry stands at the end of the queue.
\<close>

theorem Fire_blocks_when_full:
  assumes "\<not> closed (channel h)"
  shows "(length (buf (channel h)) < cap (channel h) \<longrightarrow>
            (\<exists>h'. Fire h e = Returns (None, h'))) \<and>
         (cap (channel h) \<le> length (buf (channel h)) \<longrightarrow> Fire h e = Blocks) \<and>
         (\<forall>r h'. Fire h e = Returns (r, h') \<longrightarrow>
            buf (channel h') = buf (channel h) @ [(Dup e)\<lparr>Message := Message e\<rparr>])"
  using assms by (auto simp: Fire_cases)

theorem Fire_blocks_when_full_witness:
  "\<not> closed (channel fullHook) \<and> Fire fullHook (sampleEntry ''second'') = Blocks \<and>
   \<not> closed (channel (fullHook\<lparr>channel := make_chan 1\<rparr>)) \<and>
   (\<exists>h'. Fire (fullHook\<lparr>channel := make_chan 1\<rparr>) (sampleEntry ''second'') = Returns (None, h'))"
proof -
  have a: "\<not> closed (channel fullHook)"
    by (simp add: fullHook_def)
  have b: "cap (channel fullHook) \<le> length (buf (channel fullHook))"
    by (simp add: fullHook_def)
  have c: "\<not> closed (channel (fullHook\<lparr>channel := make_chan 1\<rparr>))"
    by (simp add: make_chan_def)
  have d: "length (buf (channel (fullHook\<lparr>channel := make_chan 1\<rparr>)))
             < cap (channel (fullHook\<lparr>channel := make_chan 1\<rparr>))"
    by (simp add: make_chan_def)
  from Fire_blocks_when_full [OF a, of "sampleEntry ''second''"] b
  have "Fire fullHook (sampleEntry ''second'') = Blocks"
    by blast
  moreover from Fire_blocks_when_full [OF c, of "sampleEntry ''second''"] d
  have "\<exists>h'. Fire (fullHook\<lparr>channel := make_chan 1\<rparr>) (sampleEntry ''second'') = Returns (None, h')"
    by blast
  ultimately show ?thesis
    using a c by blast
qed

lemma Fire_nil_or_waits:
  assumes "\<not> closed (channel h)" and "workerRunning h" and "0 < cap (channel h)"
    and "length (buf (channel h)) \<le> cap (channel h)"
  shows "(\<forall>err h'. Fire h e \<noteq> Returns (Some err, h')) \<and>
         (\<forall>m. Fire h e \<noteq> Panics m) \<and>
         (Fire h e \<noteq> Blocks \<longrightarrow> (\<exists>h'. Fire h e = Returns (None, h'))) \<and>
         (Fire h e = Blocks \<longrightarrow>
            (\<exists>h1 h2. subWriter_iter fmt wr RecvChannel h = Some h1 \<and>
                      Fire h1 e = Returns (None, h2)))"
proof -
  have a: "\<forall>err h'. Fire h e \<noteq> Returns (Some err, h')"
    using assms(1) by (simp add: Fire_cases)
  have b: "\<forall>m. Fire h e \<noteq> Panics m"
    using assms(1) by (simp add: Fire_cases)
  have c: "Fire h e \<noteq> Blocks \<longrightarrow> (\<exists>h'. Fire h e = Returns (None, h'))"
    using assms(1) by (simp add: Fire_cases)
  have d: "\<exists>h1 h2. subWriter_iter fmt wr RecvChannel h = Some h1 \<and>
                   Fire h1 e = Returns (None, h2)" if blk: "Fire h e = Blocks"
  proof -
    from blk assms(1) have full: "cap (channel h) \<le> length (buf (channel h))"
      by (simp add: Fire_cases split: if_splits)
    with assms(3) obtain x xs where xs: "buf (channel h) = x # xs"
      by (cases "buf (channel h)") auto
    from subWriter_iter_RecvChannel [OF assms(2) xs]
    obtain h1 where h1: "subWriter_iter fmt wr RecvChannel h = Some h1"
      "channel h1 = (channel h)\<lparr>buf := xs\<rparr>"
      by blast
    have "\<not> closed (channel h1)"
      using h1(2) assms(1) by simp
    moreover have "length (buf (channel h1)) < cap (channel h1)"
      using h1(2) xs assms(4) by simp
    ultimately have "\<exists>h2. Fire h1 e = Returns (None, h2)"
      by (simp add: Fire_cases)
    with h1(1) show ?thesis
      by blast
  qed
  from a b c d show ?thesis
    by blast
qed

lemma New_running: "NewWithChannelSize w chanSize = Returns h \<Longrightarrow> running h"
  by (auto simp: NewWithChannelSize_def running_def make_chan_def split: if_splits)

lemma run_action_running: "running h \<Longrightarrow> running (run_action fmt wr h a)"
proof (cases a)
  case (DoFire e)
  assume r: "running h"
  then have "\<not> closed (channel h)"
    by (simp add: running_def)
  from Fire_cases [OF this, of e] r DoFire show ?thesis
    by (auto simp: run_action_def running_def)
next
  case (DoWork c)
  assume "running h"
  with DoWork show ?thesis
    by (cases c; cases "buf (channel h)"; cases "fmt (hd (buf (channel h)))")
      (auto simp: run_action_def running_def subWriter_iter_def Let_def)
qed

lemma run_running: "running h \<Longrightarrow> running (run fmt wr as h)"
  unfolding run_def
  by (induction as arbitrary: h) (simp_all add: run_action_running)

text \<open>
  Claim C3. Take a hook made by \<open>NewWithChannelSize\<close> and let calls of \<open>Fire\<close> and
  iterations of the worker follow in any number and order, the stop function not being
  called. On the hook so reached \<open>Fire\<close> never returns an error and never panics. With
  room in the queue it returns \<open>nil\<close>. On a full queue it waits, and one iteration of
  the worker, whatever the formatter and the writer answer, makes the room with which
  it returns \<open>nil\<close>.
\<close>

theorem Fire_returns_nil:
  assumes "NewWithChannelSize w chanSize = Returns h0" and "h = run fmt wr as h0"
  shows "(\<forall>err h'. Fire h e \<noteq> Returns (Some err, h')) \<and>
         (\<forall>m. Fire h e \<noteq> Panics m) \<and>
         (Fire h e \<noteq> Blocks \<longrightarrow> (\<exists>h'. Fire h e = Returns (None, h'))) \<and>
         (Fire h e = Blocks \<longrightarrow>
            (\<exists>h1 h2. subWriter_iter fmt wr RecvChannel h = Some h1 \<and>
                      Fire h1 e = Returns (None, h2)))"
proof -
  from assms have "running h"
    by (simp add: New_running run_running)
  then have "\<not> closed (channel h)" "workerRunning h" "0 < cap (channel h)"
    "length (buf (channel h)) \<le> cap (channel h)"
    by (simp_all add: running_def)
  then show ?thesis
    by (rule Fire_nil_or_waits)
qed

theorem Fire_returns_nil_witness:
  "NewWithChannelSize ([] :: string list) 1 = Returns (fullHook\<lparr>channel := make_chan 1\<rparr>) \<and>
   fullHook = run failingFmt failingWrite [DoFire (sampleEntry ''first'')]
                (fullHook\<lparr>channel := make_chan 1\<rparr>) \<and>
   Fire fullHook (sampleEntry ''second'') = Blocks \<and>
   (\<exists>h1 h2. subWriter_iter failingFmt failingWrite RecvChannel fullHook = Some h1 \<and>
            Fire h1 (sampleEntry ''second'') = Returns (None, h2))"
proof -
  have a: "NewWithChannelSize ([] :: string list) 1 = Returns (fullHook\<lparr>channel := make_chan 1\<rparr>)"
    by (simp add: NewWithChannelSize_def fullHook_def)
  have b: "fullHook = run failingFmt failingWrite [DoFire (sampleEntry ''first'')]
                (fullHook\<lparr>channel := make_chan 1\<rparr>)"
    by (simp add: run_def run_action_def Fire_def chan_send_def make_chan_def fullHook_def
        Dup_def sampleEntry_def Let_def)
  have blk: "Fire fullHook (sampleEntry ''second'') = Blocks"
    by (simp add: Fire_def chan_send_def fullHook_def Let_def)
  from Fire_returns_nil [OF a b, of "sampleEntry ''second''"] blk
  have "\<exists>h1 h2. subWriter_iter failingFmt failingWrite RecvChannel fullHook = Some h1 \<and>
            Fire h1 (sampleEntry ''second'') = Returns (None, h2)"
    by blast
  with a b blk show ?thesis
    by blast
qed

section \<open>Properties of the entry pool\<close>

lemma copyEntry_eq:
  "copyEntry e flds p =
     (\<lparr>Message = Message e, Level = Level e, Time = Time e, Data = flds ++\<^sub>f Data e\<rparr>,
      snd (pool_Get p))"
  by (simp add: copyEntry_def pool_Get_def split: list.splits prod.splits)

lemma Format_releases:
  "snd (Format rt f hp e p) = fst (copyEntry e (deref hp (Fields f)) p) # snd (pool_Get p)"
  by (simp add: Format_def copyEntry_eq releaseEntry_def pool_Put_def split: sum.splits)

lemma Format_sync_pool:
  "snd (Format_sync f hp e p) =
     (if isl (fst (Format_sync f hp e p)) then snd (pool_Get p)
      else fst (copyEntry e (deref hp (Fields_sync f)) p) # snd (pool_Get p))"
  by (simp add: Format_sync_def copyEntry_eq releaseEntry_def pool_Put_def split: sum.splits)

text \<open>
  Claim C5. The asynchronous \<open>Format\<close> puts the copied entry back into the pool on every
  path (\<open>Format_releases\<close>). The synchronous \<open>Format\<close> does so only when
  \<open>json.Marshal\<close> succeeds (\<open>Format_sync_pool\<close>): on the entry \<open>chanEntry\<close>, whose
  field \<open>category\<close> is a channel, both variants return the marshalling error; the
  synchronous one leaves the pool without the entry it took, the asynchronous one has
  put the copy back.
\<close>

theorem Format_sync_error_not_released:
  "Format_sync \<lparr>Fields_sync = None\<rparr> emptyHeap chanEntry [zeroEntry] =
     (Inl ''Failed to marshal fields to JSON, json: unsupported type: chan int'', []) \<and>
   Format sortedEnv \<lparr>Fields = None, QuoteEmptyFields = False, DisableSorting = False\<rparr>
       emptyHeap chanEntry [zeroEntry] =
     (Inl ''Failed to marshal fields to JSON, json: unsupported type: chan int'', [chanEntry])"
  by code_simp

section \<open>Properties of DefaultFormatter\<close>

lemma setDefaults_Some:
  "\<exists>hp'. setDefaults ks (Some a) hp = Returns hp' \<and> (\<forall>b. b \<noteq> a \<longrightarrow> hp' b = hp b) \<and>
     (\<forall>k. fmlookup (hp' a) k =
        (if k |\<in>| fmdom (hp a) then fmlookup (hp a) k
         else if k \<in> set ks then Some (index logstashFields k) else None))"
proof (induction ks arbitrary: hp)
  case Nil
  show ?case
    by (auto simp: fmdom_notD)
next
  case (Cons k ks)
  show ?case
  proof (cases "k |\<in>| fmdom (hp a)")
    case True
    with Cons [of hp] show ?thesis
      by (auto simp: deref_def)
  next
    case False
    define hp1 where "hp1 = hp(a := fmupd k (index logstashFields k) (hp a))"
    from Cons [of hp1]
    obtain hp' where hp': "setDefaults ks (Some a) hp1 = Returns hp'"
      "\<forall>b. b \<noteq> a \<longrightarrow> hp' b = hp1 b"
      "\<forall>k'. fmlookup (hp' a) k' =
        (if k' |\<in>| fmdom (hp1 a) then fmlookup (hp1 a) k'
         else if k' \<in> set ks then Some (index logstashFields k') else None)"
      by blast
    from False hp'(1) have "setDefaults (k # ks) (Some a) hp = Returns hp'"
      by (simp add: deref_def hp1_def)
    moreover from hp'(3) False
    have "\<forall>k'. fmlookup (hp' a) k' =
        (if k' |\<in>| fmdom (hp a) then fmlookup (hp a) k'
         else if k' \<in> set (k # ks) then Some (index logstashFields k') else None)"
      by (auto simp: hp1_def)
    moreover from hp'(2) have "\<forall>b. b \<noteq> a \<longrightarrow> hp' b = hp b"
      by (simp add: hp1_def)
    ultimately show ?thesis
      by blast
  qed
qed

lemma logstash_keys: "sorted_list_of_fset (fmdom logstashFields) = [''@version'']"
  by code_simp

lemma logstash_lookup:
  "fmlookup logstashFields k = (if k = ''@version'' then Some (VString ''1'') else None)"
  by (simp add: logstashFields_def)

lemma DefaultFormatter_nil:
  "DefaultFormatter None hp = Panics ''assignment to entry in nil map''"
  by (simp add: DefaultFormatter_def logstash_keys deref_def)

text \<open>
  Claim C10. Called with a map (the map at address \<open>a\<close> of the heap), \<open>DefaultFormatter\<close>
  of either variant returns a formatter whose \<open>Fields\<close> is that same reference, and
  leaves a heap in which the caller's map holds every key it held, with its value, and
  in addition every key of \<open>logstashFields\<close> it did not hold, with the default; no other
  map changes. When \<open>@version\<close> was missing the caller's map is a different map
  afterwards: it holds \<open>@version\<close> with \<open>"1"\<close>. (With the nil map as argument there is
  no map to store into, and the call panics: \<open>DefaultFormatter_nil\<close>.)
\<close>

theorem DefaultFormatter_mutates_argument:
  "\<exists>f g hp'.
     DefaultFormatter (Some a) hp = Returns (f, hp') \<and>
     DefaultFormatter_sync (Some a) hp = Returns (g, hp') \<and>
     Fields f = Some a \<and> Fields_sync g = Some a \<and>
     deref hp' (Fields f) = hp' a \<and> deref hp' (Fields_sync g) = hp' a \<and>
     (\<forall>k. fmlookup (hp' a) k =
        (if k |\<in>| fmdom (hp a) then fmlookup (hp a) k else fmlookup logstashFields k)) \<and>
     (\<forall>b. b \<noteq> a \<longrightarrow> hp' b = hp b) \<and>
     (''@version'' |\<notin>| fmdom (hp a) \<longrightarrow>
        hp' a \<noteq> hp a \<and> fmlookup (hp' a) ''@version'' = Some (VString ''1''))"
proof -
  from setDefaults_Some [of "[''@version'']" a hp]
  obtain hp' where hp': "setDefaults [''@version''] (Some a) hp = Returns hp'"
    "\<forall>b. b \<noteq> a \<longrightarrow> hp' b = hp b"
    "\<forall>k. fmlookup (hp' a) k =
        (if k |\<in>| fmdom (hp a) then fmlookup (hp a) k
         else if k \<in> set [''@version''] then Some (index logstashFields k) else None)"
    by blast
  have look: "\<forall>k. fmlookup (hp' a) k =
        (if k |\<in>| fmdom (hp a) then fmlookup (hp a) k else fmlookup logstashFields k)"
    using hp'(3) by (simp add: logstash_lookup index_def)
  have changed: "hp' a \<noteq> hp a \<and> fmlookup (hp' a) ''@version'' = Some (VString ''1'')"
    if "''@version'' |\<notin>| fmdom (hp a)"
  proof -
    from that look have v: "fmlookup (hp' a) ''@version'' = Some (VString ''1'')"
      by (simp add: logstash_lookup)
    from that have "fmlookup (hp a) ''@version'' = None"
      by (simp add: fmdom_notD)
    with v show ?thesis
      by auto
  qed
  show ?thesis
    using hp'(1,2) look changed
    by (simp add: DefaultFormatter_def DefaultFormatter_sync_def logstash_keys deref_def)
qed

theorem DefaultFormatter_mutates_argument_witness:
  "\<exists>f hp'. DefaultFormatter (Some 0) appHeap = Returns (f, hp') \<and> Fields f = Some 0 \<and>
     fmlookup (hp' 0) ''app_id'' = Some (VString ''foo'') \<and>
     fmlookup (hp' 0) ''@version'' = Some (VString ''1'') \<and>
     hp' 0 \<noteq> appHeap 0 \<and> hp' 1 = appHeap 1"
proof -
  have dom: "fmdom (appHeap 0) = {|''app_id''|}"
    by (simp add: appHeap_def)
  have app: "fmlookup (appHeap 0) ''app_id'' = Some (VString ''foo'')"
    by (simp add: appHeap_def)
  from DefaultFormatter_mutates_argument [of 0 appHeap]
  obtain f g hp' where r: "DefaultFormatter (Some 0) appHeap = Returns (f, hp')"
    "Fields f = Some 0"
    "\<forall>k. fmlookup (hp' 0) k =
        (if k |\<in>| fmdom (appHeap 0) then fmlookup (appHeap 0) k else fmlookup logstashFields k)"
    "\<forall>b. b \<noteq> 0 \<longrightarrow> hp' b = appHeap b"
    "''@version'' |\<notin>| fmdom (appHeap 0) \<longrightarrow>
        hp' 0 \<noteq> appHeap 0 \<and> fmlookup (hp' 0) ''@version'' = Some (VString ''1'')"
    by blast
  from r(3) dom app have "fmlookup (hp' 0) ''app_id'' = Some (VString ''foo'')"
    by simp
  moreover from r(5) dom
  have "hp' 0 \<noteq> appHeap 0 \<and> fmlookup (hp' 0) ''@version'' = Some (VString ''1'')"
    by simp
  moreover from r(4) have "hp' 1 = appHeap 1"
    by simp
  ultimately show ?thesis
    using r(1,2) by blast
qed

section \<open>Properties of the quoting rule\<close>

lemma safeChar_all: "\<forall>ch. safeChar ch \<longleftrightarrow> ch \<in> safeSet"
  by code_simp

lemma anyUnsafe_iff: "anyUnsafe s \<longleftrightarrow> (\<exists>ch\<in>set s. ch \<notin> safeSet)"
  by (induction s) (simp_all add: safeChar_all)

lemma needsQuoting_iff:
  "needsQuoting f s \<longleftrightarrow> (QuoteEmptyFields f \<and> s = []) \<or> (\<exists>ch\<in>set s. ch \<notin> safeSet)"
  by (auto simp: needsQuoting_def anyUnsafe_iff)

lemma dquote_unsafe: "dquote \<notin> safeSet"
  by code_simp

lemma Quote_a_b: "Quote rt ''a b'' = [dquote] @ ''a b'' @ [dquote]"
  by (simp add: Quote_def appendEscapedRune_def IsPrint_def RuneError_def)

lemma simple_safe: "\<not> anyUnsafe ''simple''"
  by code_simp

text \<open>
  Claim C8. The value of an extras token is the string itself for a string and the
  \<open>fmt.Sprint\<close> form otherwise. \<open>appendValue\<close> appends it quoted (\<open>%q\<close>) exactly when it
  is empty while \<open>QuoteEmptyFields\<close> is set, or holds a character outside
  \<open>[A-Za-z0-9\-._/@^+]\<close>; otherwise it appends it as it is. What is appended starts
  with a double quote exactly in the first case. The value \<open>a b\<close> gives \<open>Key="a b"\<close>,
  the value \<open>simple\<close> gives \<open>Key=simple\<close>.
\<close>

theorem appendValue_quotes_iff:
  "appendValue rt f b v =
     b @ (if (QuoteEmptyFields f \<and> stringVal v = []) \<or> (\<exists>ch\<in>set (stringVal v). ch \<notin> safeSet)
          then Quote rt (stringVal v) else stringVal v) \<and>
   ((\<exists>t. drop (length b) (appendValue rt f b v) = dquote # t) \<longleftrightarrow>
      (QuoteEmptyFields f \<and> stringVal v = []) \<or> (\<exists>ch\<in>set (stringVal v). ch \<notin> safeSet)) \<and>
   appendKeyValue rt f [] ''Key'' (VString ''a b'') = ''Key='' @ [dquote] @ ''a b'' @ [dquote] \<and>
   appendKeyValue rt f [] ''Key'' (VString ''simple'') = ''Key=simple''"
proof -
  have a: "appendValue rt f b v =
     b @ (if (QuoteEmptyFields f \<and> stringVal v = []) \<or> (\<exists>ch\<in>set (stringVal v). ch \<notin> safeSet)
          then Quote rt (stringVal v) else stringVal v)"
    by (simp add: appendValue_def needsQuoting_iff)
  have b: "(\<exists>t. drop (length b) (appendValue rt f b v) = dquote # t) \<longleftrightarrow>
      (QuoteEmptyFields f \<and> stringVal v = []) \<or> (\<exists>ch\<in>set (stringVal v). ch \<notin> safeSet)"
  proof (cases "(QuoteEmptyFields f \<and> stringVal v = []) \<or> (\<exists>ch\<in>set (stringVal v). ch \<notin> safeSet)")
    case True
    then show ?thesis
      by (simp add: a Quote_def)
  next
    case False
    then have safe: "\<forall>ch\<in>set (stringVal v). ch \<in> safeSet"
      by blast
    have "stringVal v \<noteq> dquote # t" for t
      using safe dquote_unsafe by auto
    with False show ?thesis
      by (simp add: a Quote_def)
  qed
  have c: "appendKeyValue rt f [] ''Key'' (VString ''a b'') = ''Key='' @ [dquote] @ ''a b'' @ [dquote]"
    by (simp add: appendKeyValue_def appendValue_def needsQuoting_def stringVal_def safeChar_def
        Quote_a_b)
  have d: "appendKeyValue rt f [] ''Key'' (VString ''simple'') = ''Key=simple''"
    using simple_safe
    by (simp add: appendKeyValue_def appendValue_def needsQuoting_def stringVal_def)
  from a b c d show ?thesis
    by blast
qed

section \<open>Properties of the formatted fields\<close>

lemma Format_marshals_formatData:
  "fst (Format rt f hp e p) =
     (case json_Marshal (formatData rt f hp (fst (copyEntry e (deref hp (Fields f)) p))) of
        Inl err \<Rightarrow> Inl (''Failed to marshal fields to JSON, '' @ err)
      | Inr serialized \<Rightarrow> Inr (serialized @ [CHR 0x0A]))"
  by (simp add: Format_def copyEntry_eq split: sum.splits)

lemma fmfilter_static_unknown:
  "fmfilter (\<lambda>k. \<not> knownKey static k) static = fmempty"
  by (rule fmap_ext) (auto simp: knownKey_def fmdom_notD)

lemma fmfilter_static_known:
  "fmfilter (\<lambda>k. knownKey static k) static = static"
  by (rule fmap_ext) (auto simp: knownKey_def fmdom_notD)

lemma splitData_copy:
  "splitData static (static ++\<^sub>f Data e) =
     (fmmap errorText (overlaidFields static e), entryExtras static e)"
  by (simp add: splitData_def entryExtras_def overlaidFields_def fmfilter_static_unknown
      fmfilter_static_known)

lemma formatData_copy:
  "formatData rt f hp (fst (copyEntry e (deref hp (Fields f)) p)) =
     fmupd FieldKeyMsg
       (VString (messageWithExtras rt f (Message e) (entryExtras (deref hp (Fields f)) e)))
       (fmupd FieldKeyLevel (VString (getLevelString (Level e)))
         (fmupd FieldKeyTime (VString (FormatTime (UTC (Time e))))
           (fmmap errorText (overlaidFields (deref hp (Fields f)) e))))"
  by (simp add: formatData_def copyEntry_eq splitData_copy Let_def)

text \<open>
  Claim C6, as stated: the top-level field map is the static fields overlaid by the
  entry's fields with a static key or the key \<open>category\<close>, the entry's value winning.
  With static fields \<open>level\<close> and \<open>cause\<close> and an entry that has fields of both names,
  one of them an error: the overlay has the entry's \<open>level\<close>, the map that \<open>Format\<close>
  marshals has the name of the entry's log level; the overlay has the error value, the
  map has its text.
\<close>

theorem Format_reserved_keys_counterexample:
  "fmlookup (overlaidFields (deref levelHeap (Fields defaultFmt)) levelEntry) ''level'' =
     Some (VString ''mine'') \<and>
   fmlookup (formatData sortedEnv defaultFmt levelHeap
       (fst (copyEntry levelEntry (deref levelHeap (Fields defaultFmt)) []))) ''level'' =
     Some (VString ''INFO'') \<and>
   fmlookup (overlaidFields (deref levelHeap (Fields defaultFmt)) levelEntry) ''cause'' =
     Some (VError ''boom'') \<and>
   fmlookup (formatData sortedEnv defaultFmt levelHeap
       (fst (copyEntry levelEntry (deref levelHeap (Fields defaultFmt)) []))) ''cause'' =
     Some (VString ''boom'')"
  by code_simp

text \<open>
  Claim C6, amended. The map that \<open>Format\<close> marshals (\<open>Format_marshals_formatData\<close>) is
  the overlay of the claim with every error value replaced by its text, and then with
  the keys \<open>@timestamp\<close>, \<open>level\<close> and \<open>message\<close> set from the entry's time, level and
  message. The extras are the entry's other fields: those whose key is not a key of the
  overlay.
\<close>

theorem Format_top_level_fields:
  "formatData rt f hp (fst (copyEntry e (deref hp (Fields f)) p)) =
     fmupd ''message''
       (VString (messageWithExtras rt f (Message e) (entryExtras (deref hp (Fields f)) e)))
       (fmupd ''level'' (VString (getLevelString (Level e)))
         (fmupd ''@timestamp'' (VString (FormatTime (UTC (Time e))))
           (fmmap errorText (overlaidFields (deref hp (Fields f)) e)))) \<and>
   snd (splitData (deref hp (Fields f)) (Data (fst (copyEntry e (deref hp (Fields f)) p)))) =
     entryExtras (deref hp (Fields f)) e \<and>
   fmdom (entryExtras (deref hp (Fields f)) e) =
     fmdom (Data e) |-| fmdom (overlaidFields (deref hp (Fields f)) e)"
proof -
  have a: "formatData rt f hp (fst (copyEntry e (deref hp (Fields f)) p)) =
     fmupd ''message''
       (VString (messageWithExtras rt f (Message e) (entryExtras (deref hp (Fields f)) e)))
       (fmupd ''level'' (VString (getLevelString (Level e)))
         (fmupd ''@timestamp'' (VString (FormatTime (UTC (Time e))))
           (fmmap errorText (overlaidFields (deref hp (Fields f)) e))))"
    using formatData_copy [of rt f hp e p]
    by (simp only: FieldKeyMsg_def FieldKeyLevel_def FieldKeyTime_def)
  have b: "snd (splitData (deref hp (Fields f))
              (Data (fst (copyEntry e (deref hp (Fields f)) p)))) =
     entryExtras (deref hp (Fields f)) e"
    by (simp add: copyEntry_eq splitData_copy)
  have c: "fmdom (entryExtras (deref hp (Fields f)) e) =
     fmdom (Data e) |-| fmdom (overlaidFields (deref hp (Fields f)) e)"
    by (auto simp: entryExtras_def overlaidFields_def knownKey_def)
  from a b c show ?thesis
    by (intro conjI)
qed

section \<open>Properties of the message\<close>

lemma appendValue_append: "appendValue rt f b v = b @ appendValue rt f [] v"
  by (simp add: appendValue_def)

lemma appendKeyValue_nonempty:
  "b \<noteq> [] \<Longrightarrow> appendKeyValue rt f b k v = b @ '' '' @ k @ ''='' @ appendValue rt f [] v"
  by (simp add: appendKeyValue_def Let_def appendValue_append [of rt f "b @ _"])

lemma appendKeyValue_empty:
  "appendKeyValue rt f [] k v = k @ ''='' @ appendValue rt f [] v"
  by (simp add: appendKeyValue_def Let_def appendValue_append [of rt f "_ @ _"])

lemma foldl_tokens_nonempty:
  "b \<noteq> [] \<Longrightarrow>
   foldl (\<lambda>b k. appendKeyValue rt f b k (index extras k)) b ks =
     b @ concat (map (extraToken rt f extras) ks)"
  by (induction ks arbitrary: b) (simp_all add: appendKeyValue_nonempty extraToken_def)

lemma foldl_tokens:
  "foldl (\<lambda>b k. appendKeyValue rt f b k (index extras k)) b ks =
     (if b = [] then drop 1 (concat (map (extraToken rt f extras) ks))
      else b @ concat (map (extraToken rt f extras) ks))"
proof (cases ks)
  case Nil
  then show ?thesis by simp
next
  case (Cons k ks')
  show ?thesis
  proof (cases "b = []")
    case True
    have "appendKeyValue rt f [] k (index extras k) \<noteq> []"
      by (simp add: appendKeyValue_empty)
    from foldl_tokens_nonempty [OF this, of rt f extras ks'] True Cons
    show ?thesis
      by (simp add: appendKeyValue_empty extraToken_def)
  next
    case False
    then show ?thesis by (simp add: foldl_tokens_nonempty)
  qed
qed

lemma messageWithExtras_sorted:
  assumes "\<not> DisableSorting f" and "extras \<noteq> fmempty"
  shows "messageWithExtras rt f msg extras =
     (if msg = [] then drop 1 (extraTokens rt f extras) else msg @ extraTokens rt f extras)"
proof -
  from assms(2) have "fmdom extras \<noteq> {||}"
    by (metis fmrestrict_fset_dom fmrestrict_fset_null)
  then have "0 < fcard (fmdom extras)"
    by (metis fcard_fempty fcard_seteq gr0I fempty_fsubsetI le_refl)
  with assms(1) show ?thesis
    by (simp add: messageWithExtras_def extraKeys_def extraTokens_def foldl_tokens)
qed

text \<open>
  Claim C7, as stated: with sorting and with extras, the message is the original message
  followed by one token \<open>key=value\<close> for each extra, each after a space. With an empty
  original message and the extras \<open>Key2\<close>, \<open>Key1\<close> the message is
  \<open>Key1=Value1 Key2=Value2\<close>, with no space in front: \<open>appendKeyValue\<close> writes the space
  only into a buffer that is not empty.
\<close>

theorem Format_message_empty_counterexample:
  "entryExtras (deref versionHeap (Fields defaultFmt)) (keysEntry []) =
     fmap_of_list [(''Key2'', VString ''Value2''), (''Key1'', VString ''Value1'')] \<and>
   fmlookup (formatData sortedEnv defaultFmt versionHeap
       (fst (copyEntry (keysEntry []) (deref versionHeap (Fields defaultFmt)) []))) ''message'' =
     Some (VString ''Key1=Value1 Key2=Value2'') \<and>
   ''Key1=Value1 Key2=Value2'' \<noteq> Message (keysEntry []) @ '' Key1=Value1 Key2=Value2''"
  by code_simp

text \<open>
  Claim C7, amended. When sorting is not disabled and the entry has extras, the message
  that \<open>Format\<close> marshals is the original message followed by the tokens of the extras in
  sorted key order, each token a space, the key, \<open>=\<close> and the value; when the original
  message is empty, the space of the first token is left out.
\<close>

theorem Format_message_sorted_extras:
  assumes "\<not> DisableSorting f"
    and "entryExtras (deref hp (Fields f)) e \<noteq> fmempty"
  shows "fmlookup (formatData rt f hp (fst (copyEntry e (deref hp (Fields f)) p))) ''message'' =
     Some (VString
       (if Message e = [] then drop 1 (extraTokens rt f (entryExtras (deref hp (Fields f)) e))
        else Message e @ extraTokens rt f (entryExtras (deref hp (Fields f)) e)))"
  using assms by (simp add: formatData_copy FieldKeyMsg_def messageWithExtras_sorted)

theorem Format_message_sorted_extras_witness:
  "\<not> DisableSorting defaultFmt \<and>
   entryExtras (deref versionHeap (Fields defaultFmt)) (keysEntry ''message bla bla'') \<noteq> fmempty \<and>
   fmlookup (formatData sortedEnv defaultFmt versionHeap
       (fst (copyEntry (keysEntry ''message bla bla'') (deref versionHeap (Fields defaultFmt)) [])))
     ''message'' = Some (VString ''message bla bla Key1=Value1 Key2=Value2'')"
proof -
  have a: "\<not> DisableSorting defaultFmt"
    by (simp add: defaultFmt_def)
  have b: "entryExtras (deref versionHeap (Fields defaultFmt)) (keysEntry ''message bla bla'')
             \<noteq> fmempty"
    by code_simp
  have c: "extraTokens sortedEnv defaultFmt
             (entryExtras (deref versionHeap (Fields defaultFmt)) (keysEntry ''message bla bla'')) =
           '' Key1=Value1 Key2=Value2''"
    by code_simp
  have d: "Message (keysEntry ''message bla bla'') = ''message bla bla''"
    by (simp add: keysEntry_def)
  from Format_message_sorted_extras [OF a b, of sortedEnv "[]"] a b show ?thesis
    by (simp add: c d)
qed

section \<open>Properties of the timestamp\<close>

lemma length_padDigits [simp]: "length (padDigits w n) = w"
  by (induction w arbitrary: n) simp_all

lemma digitsOf_small: "n < 10 \<Longrightarrow> digitsOf n = [digitChar n]"
  by (subst digitsOf.simps) simp

lemma digitsOf_big: "\<not> n < 10 \<Longrightarrow> digitsOf n = digitsOf (n div 10) @ [digitChar (n mod 10)]"
  by (subst digitsOf.simps) simp

lemma digitChar_0: "digitChar 0 = CHR ''0''"
  by code_simp

lemma padDigits_zero: "padDigits w 0 = replicate w (digitChar 0)"
  by (induction w) (simp_all add: replicate_append_same)

lemma digitsOf_le: "0 \<le> n \<Longrightarrow> n < 10 ^ w \<Longrightarrow> length (digitsOf n) \<le> max w 1"
proof (induction w arbitrary: n)
  case 0
  then show ?case by (simp add: digitsOf_small)
next
  case (Suc w)
  show ?case
  proof (cases "n < 10")
    case True
    then show ?thesis by (simp add: digitsOf_small)
  next
    case False
    with Suc.prems have "0 \<le> n div 10" "n div 10 < 10 ^ w" by auto
    from Suc.IH [OF this] False have "length (digitsOf (n div 10)) \<le> max w 1" by simp
    moreover from False Suc.prems have "w \<ge> 1"
      by (cases w) auto
    ultimately show ?thesis by (simp add: digitsOf_big [OF False])
  qed
qed

lemma pad_digitsOf:
  "0 \<le> n \<Longrightarrow> n < 10 ^ w \<Longrightarrow> 0 < w \<Longrightarrow>
   replicate (w - length (digitsOf n)) CHR ''0'' @ digitsOf n = padDigits w n"
proof (induction w arbitrary: n)
  case 0
  then show ?case by simp
next
  case (Suc w)
  show ?case
  proof (cases "n < 10")
    case True
    with Suc.prems have "n div 10 = 0" by simp
    with True show ?thesis
      by (simp add: digitsOf_small padDigits_zero digitChar_0)
  next
    case False
    with Suc.prems have p: "0 \<le> n div 10" "n div 10 < 10 ^ w" by auto
    from False Suc.prems have w: "0 < w"
      by (cases w) auto
    from digitsOf_le [OF p] w have len: "length (digitsOf (n div 10)) \<le> w" by simp
    have "replicate (Suc w - length (digitsOf n)) CHR ''0'' @ digitsOf n =
          (replicate (w - length (digitsOf (n div 10))) CHR ''0'' @ digitsOf (n div 10)) @
            [digitChar (n mod 10)]"
      using len by (simp add: digitsOf_big [OF False] Suc_diff_le)
    also have "\<dots> = padDigits w (n div 10) @ [digitChar (n mod 10)]"
      by (simp only: Suc.IH [OF p w])
    finally show ?thesis by simp
  qed
qed

lemma appendInt_pad:
  "0 \<le> n \<Longrightarrow> n < 10 ^ w \<Longrightarrow> 0 < w \<Longrightarrow> appendInt n w = padDigits w n"
  by (simp add: appendInt_def Let_def pad_digitsOf)


lemma div6: "(n::int) div 10 div 10 div 10 div 10 div 10 div 10 = n div 1000000"
proof -
  have "n div 1000000 = n div (10 * (10 * (10 * (10 * (10 * 10)))))" by simp
  also have "\<dots> = n div 10 div 10 div 10 div 10 div 10 div 10"
    by (simp only: zdiv_zmult2_eq)
  finally show ?thesis by (rule sym)
qed

lemma take3_pad9: "take 3 (padDigits 9 n) = padDigits 3 (n div 1000000)"
proof -
  have nine: "(9::nat) = Suc (Suc (Suc (Suc (Suc (Suc 3)))))" by simp
  have "padDigits 9 n = padDigits 3 (n div 10 div 10 div 10 div 10 div 10 div 10) @
      [digitChar (n div 10 div 10 div 10 div 10 div 10 mod 10),
       digitChar (n div 10 div 10 div 10 div 10 mod 10),
       digitChar (n div 10 div 10 div 10 mod 10),
       digitChar (n div 10 div 10 mod 10),
       digitChar (n div 10 mod 10),
       digitChar (n mod 10)]"
    unfolding nine by (simp only: padDigits.simps append_assoc append_Cons append_Nil)
  then show ?thesis
    by (simp only: div6 take_append length_padDigits) simp
qed

lemma isDigit_digitChar: "0 \<le> d \<Longrightarrow> d < 10 \<Longrightarrow> isDigit (digitChar d)"
proof -
  assume "0 \<le> d" "d < 10"
  then have "d \<in> {0,1,2,3,4,5,6,7,8,9}" by simp arith
  moreover have "\<forall>d\<in>{0,1,2,3,4,5,6,7,8,9::int}. isDigit (digitChar d)"
    by code_simp
  ultimately show ?thesis by blast
qed

lemma digitChar_eq_0: "0 \<le> d \<Longrightarrow> d < 10 \<Longrightarrow> digitChar d = CHR ''0'' \<longleftrightarrow> d = 0"
proof -
  assume "0 \<le> d" "d < 10"
  then have "d \<in> {0,1,2,3,4,5,6,7,8,9}" by simp arith
  moreover have "\<forall>d\<in>{0,1,2,3,4,5,6,7,8,9::int}. digitChar d = CHR ''0'' \<longleftrightarrow> d = 0"
    by code_simp
  ultimately show ?thesis by blast
qed


lemma padDigits_digits: "c \<in> set (padDigits w n) \<Longrightarrow> isDigit c"
  by (induction w arbitrary: n) (auto simp: isDigit_digitChar)

lemma dot_not_digit: "\<not> isDigit CHR ''.''"
  by code_simp

lemma takeWhile_zeros:
  "takeWhile (\<lambda>c. c = CHR ''0'') ys = replicate (length (takeWhile (\<lambda>c. c = CHR ''0'') ys)) CHR ''0''"
  by (induction ys) simp_all

lemma trimZeros_pad:
  "trimZeros xs @ replicate (length xs - length (trimZeros xs)) CHR ''0'' = xs"
proof -
  let ?P = "\<lambda>c. c = CHR ''0''"
  have "length (takeWhile ?P (rev xs) @ dropWhile ?P (rev xs)) = length (rev xs)"
    by (simp only: takeWhile_dropWhile_id)
  then have len: "length (takeWhile ?P (rev xs)) + length (dropWhile ?P (rev xs)) = length xs"
    by (simp only: length_append length_rev)
  have "xs = rev (takeWhile ?P (rev xs) @ dropWhile ?P (rev xs))"
    by simp
  also have "\<dots> = rev (dropWhile ?P (rev xs)) @ rev (takeWhile ?P (rev xs))"
    by (simp only: rev_append)
  also have "rev (takeWhile ?P (rev xs)) = replicate (length (takeWhile ?P (rev xs))) CHR ''0''"
    using takeWhile_zeros [of "rev xs"] by (metis rev_replicate)
  also have "length (takeWhile ?P (rev xs)) = length xs - length (trimZeros xs)"
    using len by (simp add: trimZeros_def)
  finally show ?thesis
    by (simp add: trimZeros_def)
qed

lemma trimZeros_last: "trimZeros xs \<noteq> [] \<Longrightarrow> last (trimZeros xs) \<noteq> CHR ''0''"
  using hd_dropWhile [of "\<lambda>c. c = CHR ''0''" "rev xs"]
  by (simp add: trimZeros_def last_rev)

lemma trimZeros_set: "c \<in> set (trimZeros xs) \<Longrightarrow> c \<in> set xs"
  by (auto simp: trimZeros_def dest: set_dropWhileD)

lemma trimZeros_length: "length (trimZeros xs) \<le> length xs"
  by (simp add: trimZeros_def length_dropWhile_le [of _ "rev xs", simplified])

lemma trimZeros_Nil_iff: "trimZeros xs = [] \<longleftrightarrow> (\<forall>c\<in>set xs. c = CHR ''0'')"
  by (simp add: trimZeros_def)

lemma trimZeros_Cons:
  "c \<noteq> CHR ''0'' \<Longrightarrow> trimZeros (c # xs) = c # trimZeros xs"
  by (simp add: trimZeros_def dropWhile_append)

lemma pad3: "padDigits 3 n = [digitChar (n div 10 div 10 mod 10), digitChar (n div 10 mod 10), digitChar (n mod 10)]"
proof -
  have three: "(3::nat) = Suc (Suc (Suc 0))" by simp
  show ?thesis unfolding three by simp
qed

lemma three_digits_zero:
  assumes "0 \<le> (ms::int)" and "ms < 1000"
  shows "ms = 0 \<longleftrightarrow> ms div 10 div 10 mod 10 = 0 \<and> ms div 10 mod 10 = 0 \<and> ms mod 10 = 0"
proof
  assume "ms = 0"
  then show "ms div 10 div 10 mod 10 = 0 \<and> ms div 10 mod 10 = 0 \<and> ms mod 10 = 0"
    by simp
next
  assume h: "ms div 10 div 10 mod 10 = 0 \<and> ms div 10 mod 10 = 0 \<and> ms mod 10 = 0"
  from assms have "ms div 10 div 10 < 10" by simp
  moreover from assms have "0 \<le> ms div 10 div 10" by simp
  ultimately have "ms div 10 div 10 = 0" using h by simp
  then have "ms div 10 = 0" using h div_mult_mod_eq [of "ms div 10" 10] by simp
  then show "ms = 0" using h div_mult_mod_eq [of ms 10] by simp
qed

lemma pad3_zero_iff:
  assumes "0 \<le> ms" and "ms < 1000"
  shows "(\<forall>c\<in>set (padDigits 3 ms). c = CHR ''0'') \<longleftrightarrow> ms = 0"
  using three_digits_zero [OF assms] by (simp add: pad3 digitChar_eq_0)

lemma appendNano999_eq:
  assumes "0 \<le> ns" and "ns < 1000000000"
  shows "appendNano999 ns =
     (if ns div 1000000 = 0 then [] else CHR ''.'' # trimZeros (padDigits 3 (ns div 1000000)))"
proof (cases "ns = 0")
  case True
  then show ?thesis by (simp add: appendNano999_def)
next
  case False
  let ?ms = "ns div 1000000"
  from assms have ms: "0 \<le> ?ms" "?ms < 1000" by auto
  have b: "CHR ''.'' # take 3 (appendInt ns 9) = CHR ''.'' # padDigits 3 ?ms"
    using assms by (simp add: appendInt_pad take3_pad9)
  have t: "trimZeros (CHR ''.'' # padDigits 3 ?ms) = CHR ''.'' # trimZeros (padDigits 3 ?ms)"
    by (rule trimZeros_Cons) simp
  show ?thesis
  proof (cases "?ms = 0")
    case True
    then have "trimZeros (padDigits 3 ?ms) = []"
      using pad3_zero_iff [OF ms] by (simp add: trimZeros_Nil_iff)
    with False True b t show ?thesis
      by (simp add: appendNano999_def Let_def)
  next
    case nz: False
    then have ne: "trimZeros (padDigits 3 ?ms) \<noteq> []"
      using pad3_zero_iff [OF ms] by (simp add: trimZeros_Nil_iff)
    have "isDigit (last (trimZeros (padDigits 3 ?ms)))"
      using ne by (meson last_in_set padDigits_digits trimZeros_set)
    then have "last (trimZeros (padDigits 3 ?ms)) \<noteq> CHR ''.''"
      using dot_not_digit by auto
    with False nz b t ne show ?thesis
      by (simp add: appendNano999_def Let_def)
  qed
qed

lemma appendInt2: "0 \<le> n \<Longrightarrow> n < 100 \<Longrightarrow> appendInt n 2 = padDigits 2 n"
  using appendInt_pad [of n 2] by simp

lemma pad2: "padDigits 2 n = [digitChar (n div 10 mod 10), digitChar (n mod 10)]"
proof -
  have two: "(2::nat) = Suc (Suc 0)" by simp
  show ?thesis unfolding two by simp
qed

lemma clockPart_layout: "matchesLayout ''dd:dd:dd'' (clockPart t)"
proof -
  define s where "s = (unixSec t + zoneOffset t) mod 86400"
  have s: "0 \<le> s" "s < 86400"
    by (simp_all add: s_def)
  have h: "0 \<le> s div 3600" "s div 3600 < 100"
    using s by simp_all
  have m: "0 \<le> s mod 3600 div 60" "s mod 3600 div 60 < 100"
    by simp_all
  have c: "0 \<le> s mod 60" "s mod 60 < 100"
    by simp_all
  show ?thesis
    unfolding clockPart_def s_def [symmetric] Let_def
    by (simp add: appendInt2 [OF h] appendInt2 [OF m] appendInt2 [OF c] pad2 matchesLayout_def
        isDigit_digitChar)
qed

text \<open>
  The synchronous \<open>Format\<close> formats the time in its own location, without \<open>UTC()\<close>:
  for a time in a zone nine hours east the field ends in \<open>+09:00\<close>.
\<close>

lemma Format_sync_keeps_zone:
  "fmlookup (formatData_sync (keysEntry [])) ''@timestamp'' =
     Some (VString ''2018-07-21T23:34:42.12+09:00'')"
  by code_simp

text \<open>
  Claim C1, as stated: the \<open>@timestamp\<close> field always has the shape
  \<open>YYYY-MM-DDTHH:mm:ss.sssZ\<close>. For an entry whose time has no nanoseconds it is
  \<open>2018-07-21T14:34:42Z\<close>, without a fraction; for 120 milliseconds the fraction is
  \<open>.12\<close>: the layout constant \<open>TimeFormat\<close> ends in \<open>.999\<close>, which drops trailing zeros.
\<close>

theorem Format_timestamp_counterexample:
  "fmlookup (formatData sortedEnv defaultFmt versionHeap
       (fst (copyEntry levelEntry (deref versionHeap (Fields defaultFmt)) []))) ''@timestamp'' =
     Some (VString ''2018-07-21T14:34:42Z'') \<and>
   \<not> matchesLayout isoMillisLayout ''2018-07-21T14:34:42Z'' \<and>
   fmlookup (formatData sortedEnv defaultFmt versionHeap
       (fst (copyEntry (keysEntry []) (deref versionHeap (Fields defaultFmt)) []))) ''@timestamp'' =
     Some (VString ''2018-07-21T14:34:42.12Z'') \<and>
   \<not> matchesLayout isoMillisLayout ''2018-07-21T14:34:42.12Z''"
  by code_simp

text \<open>
  Claim C1, amended. For every entry (with nanoseconds from 0 to \<open>10^9 - 1\<close>) the
  \<open>@timestamp\<close> field that the asynchronous \<open>Format\<close> marshals is the date and the time
  of day of the entry's time in UTC, two digits each for hour, minute and second, then
  the fraction, then the literal \<open>Z\<close>. The fraction is empty when the milliseconds are
  zero; otherwise it is a dot and the one to three digits that remain of the three
  digits of the milliseconds once trailing zeros are removed.
\<close>

theorem Format_timestamp_layout:
  assumes "0 \<le> nanosec (Time e)" and "nanosec (Time e) < 1000000000"
  shows "\<exists>frac.
     fmlookup (formatData rt f hp (fst (copyEntry e (deref hp (Fields f)) p))) ''@timestamp'' =
       Some (VString (datePart (UTC (Time e)) @ ''T'' @ clockPart (UTC (Time e)) @ frac @ ''Z'')) \<and>
     matchesLayout ''dd:dd:dd'' (clockPart (UTC (Time e))) \<and>
     (nanosec (Time e) div 1000000 = 0 \<longrightarrow> frac = []) \<and>
     (nanosec (Time e) div 1000000 \<noteq> 0 \<longrightarrow>
        (\<exists>ds. frac = CHR ''.'' # ds \<and> ds \<noteq> [] \<and> length ds \<le> 3 \<and> (\<forall>c\<in>set ds. isDigit c) \<and>
              last ds \<noteq> CHR ''0'' \<and>
              ds @ replicate (3 - length ds) CHR ''0'' = padDigits 3 (nanosec (Time e) div 1000000)))"
proof -
  define ms where "ms = nanosec (Time e) div 1000000"
  define ds where "ds = trimZeros (padDigits 3 ms)"
  define frac where "frac = appendNano999 (nanosec (Time e))"
  have frac: "frac = (if ms = 0 then [] else CHR ''.'' # ds)"
    unfolding frac_def ms_def ds_def by (rule appendNano999_eq [OF assms])
  have ms: "0 \<le> ms" "ms < 1000"
    using assms by (simp_all add: ms_def)
  have stamp: "fmlookup (formatData rt f hp (fst (copyEntry e (deref hp (Fields f)) p)))
       ''@timestamp'' =
     Some (VString (datePart (UTC (Time e)) @ ''T'' @ clockPart (UTC (Time e)) @ frac @ ''Z''))"
    by (simp add: formatData_copy FieldKeyMsg_def FieldKeyLevel_def FieldKeyTime_def
        FormatTime_def UTC_def zoneISO8601Colon_def frac_def)
  have nz: "ds \<noteq> [] \<and> length ds \<le> 3 \<and> (\<forall>c\<in>set ds. isDigit c) \<and> last ds \<noteq> CHR ''0'' \<and>
      ds @ replicate (3 - length ds) CHR ''0'' = padDigits 3 ms" if "ms \<noteq> 0"
  proof -
    from that have ne: "ds \<noteq> []"
      using pad3_zero_iff [OF ms] by (simp add: ds_def trimZeros_Nil_iff)
    moreover have "length ds \<le> 3"
      using trimZeros_length [of "padDigits 3 ms"] by (simp add: ds_def)
    moreover have "\<forall>c\<in>set ds. isDigit c"
      by (auto simp: ds_def dest!: trimZeros_set padDigits_digits)
    moreover have "last ds \<noteq> CHR ''0''"
      using ne trimZeros_last [of "padDigits 3 ms"] by (simp add: ds_def)
    moreover have "ds @ replicate (3 - length ds) CHR ''0'' = padDigits 3 ms"
      using trimZeros_pad [of "padDigits 3 ms"] by (simp add: ds_def)
    ultimately show ?thesis
      by blast
  qed
  show ?thesis
    using stamp clockPart_layout [of "UTC (Time e)"] frac nz
    unfolding ms_def [symmetric]
    by (intro exI [of _ frac]) auto
qed

theorem Format_timestamp_layout_witness:
  "0 \<le> nanosec (Time (keysEntry [])) \<and> nanosec (Time (keysEntry [])) < 1000000000 \<and>
   (\<exists>frac.
     fmlookup (formatData sortedEnv defaultFmt versionHeap
         (fst (copyEntry (keysEntry []) (deref versionHeap (Fields defaultFmt)) [])))
       ''@timestamp'' = Some (VString (''2018-07-21T14:34:42'' @ frac @ ''Z'')) \<and>
     (\<exists>ds. frac = CHR ''.'' # ds \<and> ds \<noteq> [] \<and> length ds \<le> 3 \<and>
           ds @ replicate (3 - length ds) CHR ''0'' = ''120''))"
proof -
  have a: "0 \<le> nanosec (Time (keysEntry []))"
    and b: "nanosec (Time (keysEntry [])) < 1000000000"
    and c: "nanosec (Time (keysEntry [])) div 1000000 \<noteq> 0"
    by (simp_all add: keysEntry_def)
  have d: "datePart (UTC (Time (keysEntry []))) @ ''T'' @ clockPart (UTC (Time (keysEntry []))) =
      ''2018-07-21T14:34:42''"
    by code_simp
  have e: "padDigits 3 (nanosec (Time (keysEntry [])) div 1000000) = ''120''"
    by code_simp
  from Format_timestamp_layout [OF a b, of sortedEnv defaultFmt versionHeap "[]"] c
  obtain frac ds where
    "fmlookup (formatData sortedEnv defaultFmt versionHeap
         (fst (copyEntry (keysEntry []) (deref versionHeap (Fields defaultFmt)) [])))
       ''@timestamp'' =
       Some (VString (datePart (UTC (Time (keysEntry []))) @ ''T'' @
                      clockPart (UTC (Time (keysEntry []))) @ frac @ ''Z''))"
    "frac = CHR ''.'' # ds" "ds \<noteq> []" "length ds \<le> 3"
    "ds @ replicate (3 - length ds) CHR ''0'' = padDigits 3 (nanosec (Time (keysEntry [])) div 1000000)"
    by blast
  with d e a b show ?thesis
    by (metis append_assoc)
qed

section \<open>Properties of json.Marshal\<close>

text \<open>The reader accepts what the string encoder writes.\<close>

lemma prepend_prepend: "prepend xs (prepend ys r) = prepend (xs @ ys) r"
  by (simp add: prepend_def split: option.splits)

lemma special_chars:
  "dquote \<noteq> backslash" "(of_char dquote :: int) = 34" "(of_char backslash :: int) = 92"
  by (simp_all add: dquote_def backslash_def)

lemma stringBody_plain:
  "c \<noteq> dquote \<Longrightarrow> c \<noteq> backslash \<Longrightarrow> (32 :: int) \<le> of_char c \<Longrightarrow>
   stringBody (c # t) = prepend [c] (stringBody t)"
  by (simp add: stringBody.simps)

lemma stringBody_high:
  "\<forall>x\<in>set xs. (128 :: int) \<le> of_char x \<Longrightarrow> stringBody (xs @ t) = prepend xs (stringBody t)"
proof (induction xs)
  case Nil
  show ?case by (simp add: prepend_def split: option.splits)
next
  case (Cons x xs)
  then have x: "(128 :: int) \<le> of_char x" by simp
  then have "x \<noteq> dquote" "x \<noteq> backslash"
    using special_chars by auto
  with x Cons show ?case
    by (simp add: stringBody_plain prepend_prepend)
qed

lemma hex4_byte: "\<forall>c. hex4 (''00'' @ hexByte c) = Some (of_char c)"
  by code_simp

lemma EncodeRune_ascii: "\<forall>c. (of_char c :: int) < 128 \<longrightarrow> EncodeRune (of_char c) = [c]"
  by code_simp

lemma hex4_fffd: "hex4 ''fffd'' = Some RuneError"
  by code_simp

lemma hex4_2028: "hex4 (''202'' @ [hexChar (8232 mod 16)]) = Some 8232"
  by code_simp

lemma hex4_2029: "hex4 (''202'' @ [hexChar (8233 mod 16)]) = Some 8233"
  by code_simp

lemma stringBody_u:
  "hex4 h = Some r \<Longrightarrow> length h = 4 \<Longrightarrow>
   stringBody (backslash # CHR ''u'' # h @ t) = prepend (EncodeRune r) (stringBody t)"
  using special_chars by (simp add: stringBody.simps)

lemma stringBody_short:
  "unescape e = Some ch \<Longrightarrow> e \<noteq> CHR ''u'' \<Longrightarrow>
   stringBody (backslash # e # t) = prepend [ch] (stringBody t)"
  using special_chars by (simp add: stringBody.simps)

lemma stringBody_escape:
  assumes "(of_char c :: int) < 128" and "\<not> htmlSafe c"
  shows "stringBody (jsonEscapeByte c @ t) = prepend [c] (stringBody t)"
proof -
  have "hex4 (''00'' @ hexByte c) = Some (of_char c)"
    using hex4_byte by blast
  moreover have "length (''00'' @ hexByte c) = 4"
    by (simp add: hexByte_def)
  ultimately have "stringBody (backslash # CHR ''u'' # (''00'' @ hexByte c) @ t) =
      prepend (EncodeRune (of_char c)) (stringBody t)"
    by (rule stringBody_u)
  then have u: "stringBody (backslash # ''u00'' @ hexByte c @ t) = prepend [c] (stringBody t)"
    using EncodeRune_ascii assms(1) by simp
  consider (q) "c = backslash \<or> c = dquote" | (b) "c = CHR 0x08" | (f) "c = CHR 0x0C"
    | (n) "c = CHR 0x0A" | (r) "c = CHR 0x0D" | (tab) "c = CHR 0x09"
    | (other) "\<not> (c = backslash \<or> c = dquote)" "c \<noteq> CHR 0x08" "c \<noteq> CHR 0x0C"
        "c \<noteq> CHR 0x0A" "c \<noteq> CHR 0x0D" "c \<noteq> CHR 0x09"
    by blast
  then show ?thesis
  proof cases
    case q
    then have "unescape c = Some c" "c \<noteq> CHR ''u''"
      by (auto simp: unescape_def dquote_def backslash_def)
    then have "stringBody (backslash # c # t) = prepend [c] (stringBody t)"
      by (rule stringBody_short)
    with q show ?thesis
      by (simp add: jsonEscapeByte_def)
  next
    case b
    have "stringBody (backslash # CHR ''b'' # t) = prepend [CHR 0x08] (stringBody t)"
      by (rule stringBody_short) (simp_all add: unescape_def dquote_def backslash_def)
    with b show ?thesis
      by (simp add: jsonEscapeByte_def dquote_def backslash_def)
  next
    case f
    have "stringBody (backslash # CHR ''f'' # t) = prepend [CHR 0x0C] (stringBody t)"
      by (rule stringBody_short) (simp_all add: unescape_def dquote_def backslash_def)
    with f show ?thesis
      by (simp add: jsonEscapeByte_def dquote_def backslash_def)
  next
    case n
    have "stringBody (backslash # CHR ''n'' # t) = prepend [CHR 0x0A] (stringBody t)"
      by (rule stringBody_short) (simp_all add: unescape_def dquote_def backslash_def)
    with n show ?thesis
      by (simp add: jsonEscapeByte_def dquote_def backslash_def)
  next
    case r
    have "stringBody (backslash # CHR ''r'' # t) = prepend [CHR 0x0D] (stringBody t)"
      by (rule stringBody_short) (simp_all add: unescape_def dquote_def backslash_def)
    with r show ?thesis
      by (simp add: jsonEscapeByte_def dquote_def backslash_def)
  next
    case tab
    have "stringBody (backslash # CHR ''t'' # t) = prepend [CHR 0x09] (stringBody t)"
      by (rule stringBody_short) (simp_all add: unescape_def dquote_def backslash_def)
    with tab show ?thesis
      by (simp add: jsonEscapeByte_def dquote_def backslash_def)
  next
    case other
    with u show ?thesis
      by (simp add: jsonEscapeByte_def)
  qed
qed

lemma stringBody_fffd:
  "stringBody (backslash # ''ufffd'' @ t) = prepend (EncodeRune RuneError) (stringBody t)"
  using stringBody_u [OF hex4_fffd, of t] by simp

lemma stringBody_202x:
  assumes "r = 8232 \<or> r = 8233"
  shows "stringBody (backslash # ''u202'' @ [hexChar (r mod 16)] @ t) =
     prepend (EncodeRune r) (stringBody t)"
proof -
  have "hex4 (''202'' @ [hexChar (r mod 16)]) = Some r"
    using assms hex4_2028 hex4_2029 by auto
  then have "stringBody (backslash # CHR ''u'' # (''202'' @ [hexChar (r mod 16)]) @ t) =
      prepend (EncodeRune r) (stringBody t)"
    by (rule stringBody_u) simp
  then show ?thesis
    by (simp only: append_Cons append_Nil)
qed

lemma seqSize_cases: "seqSize b = 0 \<or> seqSize b = 2 \<or> seqSize b = 3 \<or> seqSize b = 4"
  by (simp add: seqSize_def)

lemma acceptLo_high: "128 \<le> acceptLo b"
  by (simp add: acceptLo_def)

lemma list_shapes:
  obtains "s = []" | c1 where "s = [c1]" | c1 c2 where "s = [c1, c2]"
  | c1 c2 c3 s' where "s = c1 # c2 # c3 # s'"
  by (metis list.exhaust)

lemma take2: "1 \<le> length s \<Longrightarrow> take 2 (c # s) = [c, s ! 0]"
  by (cases s rule: list_shapes) simp_all

lemma take3: "2 \<le> length s \<Longrightarrow> take 3 (c # s) = [c, s ! 0, s ! 1]"
  by (cases s rule: list_shapes) simp_all

lemma take4: "3 \<le> length s \<Longrightarrow> take 4 (c # s) = [c, s ! 0, s ! 1, s ! 2]"
  by (cases s rule: list_shapes) simp_all

lemma DecodeRune_chain:
  assumes "(128 :: int) \<le> of_char c"
  shows "DecodeRune (c # s) =
     (if seqSize (of_char c) = 0 \<or> length s + 1 < seqSize (of_char c) then (RuneError, 1)
      else if \<not> byteIn (acceptLo (of_char c)) (acceptHi (of_char c)) (s ! 0) then (RuneError, 1)
      else if seqSize (of_char c) \<le> 2 then ((of_char c mod 32) * 64 + contBits (s ! 0), 2)
      else if \<not> byteIn 128 191 (s ! 1) then (RuneError, 1)
      else if seqSize (of_char c) \<le> 3
        then ((of_char c mod 16) * 4096 + contBits (s ! 0) * 64 + contBits (s ! 1), 3)
      else if \<not> byteIn 128 191 (s ! 2) then (RuneError, 1)
      else ((of_char c mod 8) * 262144 + contBits (s ! 0) * 4096 + contBits (s ! 1) * 64 +
            contBits (s ! 2), 4))"
proof -
  have nb: "\<not> (of_char c :: int) < 128"
    using assms by simp
  show ?thesis
    unfolding DecodeRune.simps Let_def by (simp only: nb if_False)
qed

lemma DecodeRune_valid_high:
  assumes "(128 :: int) \<le> of_char c" and "DecodeRune (c # s) = (r, n)"
    and "\<not> (r = RuneError \<and> n = 1)"
  shows "(\<forall>x\<in>set (take n (c # s)). (128 :: int) \<le> of_char x) \<and> 1 \<le> n"
proof -
  define sz where "sz = seqSize (of_char c)"
  define A where "A = byteIn (acceptLo (of_char c)) (acceptHi (of_char c)) (s ! 0)"
  define B where "B = byteIn 128 191 (s ! 1)"
  define C where "C = byteIn 128 191 (s ! 2)"
  define r2 where "r2 = (of_char c mod 32) * 64 + contBits (s ! 0)"
  define r3 where "r3 = (of_char c mod 16) * 4096 + contBits (s ! 0) * 64 + contBits (s ! 1)"
  define r4 where "r4 = (of_char c mod 8) * 262144 + contBits (s ! 0) * 4096 +
      contBits (s ! 1) * 64 + contBits (s ! 2)"
  have sz: "sz = 0 \<or> sz = 2 \<or> sz = 3 \<or> sz = 4"
    unfolding sz_def by (rule seqSize_cases)
  have lo: "A \<Longrightarrow> (128 :: int) \<le> of_char (s ! 0)"
    using acceptLo_high [of "of_char c"] by (simp add: byteIn_def A_def)
  have hi: "B \<Longrightarrow> (128 :: int) \<le> of_char (s ! 1)" "C \<Longrightarrow> (128 :: int) \<le> of_char (s ! 2)"
    by (simp_all add: byteIn_def B_def C_def)
  have d: "(if sz = 0 \<or> length s + 1 < sz then (RuneError, 1)
      else if \<not> A then (RuneError, 1)
      else if sz \<le> 2 then (r2, 2)
      else if \<not> B then (RuneError, 1)
      else if sz \<le> 3 then (r3, 3)
      else if \<not> C then (RuneError, 1)
      else (r4, 4)) = (r, n)"
    using assms(2)
    unfolding DecodeRune_chain [OF assms(1)] sz_def A_def B_def C_def r2_def r3_def r4_def .
  consider (two) "n = 2" "1 \<le> length s" "A"
    | (three) "n = 3" "2 \<le> length s" "A" "B"
    | (four) "n = 4" "3 \<le> length s" "A" "B" "C"
    using d assms(3) sz by (auto split: if_splits)
  then show ?thesis
  proof cases
    case two
    then show ?thesis
      using assms(1) lo by (simp only: take2) simp
  next
    case three
    then show ?thesis
      using assms(1) lo hi by (simp only: take3) simp
  next
    case four
    then show ?thesis
      using assms(1) lo hi by (simp only: take4) simp
  qed
qed

lemma stringBody_enc:
  "stringBody (jsonStringBody s @ dquote # rest) = Some (decodedOf s, rest)"
proof (induction s rule: jsonStringBody.induct)
  case 1
  show ?case
    by (simp add: stringBody.simps)
next
  case (2 c s)
  show ?case
  proof (cases "(of_char c :: int) < 128")
    case True
    from True "2.IH"(1) have ih: "stringBody (jsonStringBody s @ dquote # rest) = Some (decodedOf s, rest)"
      by simp
    show ?thesis
    proof (cases "htmlSafe c")
      case safe: True
      then have "stringBody (c # jsonStringBody s @ dquote # rest) =
          prepend [c] (stringBody (jsonStringBody s @ dquote # rest))"
        by (intro stringBody_plain) (simp_all add: htmlSafe_def)
      with True safe ih show ?thesis
        by (simp add: prepend_def)
    next
      case unsafe: False
      from stringBody_escape [OF True unsafe, of "jsonStringBody s @ dquote # rest"]
      show ?thesis
        using True unsafe ih by (simp add: prepend_def)
    qed
  next
    case False
    obtain r n where d: "DecodeRune (c # s) = (r, n)"
      by (cases "DecodeRune (c # s)")
    show ?thesis
    proof (cases "r = RuneError \<and> n = 1")
      case inv: True
      from False d inv "2.IH"(2) [of "(r, n)" r n]
      have ih: "stringBody (jsonStringBody s @ dquote # rest) = Some (decodedOf s, rest)"
        by simp
      from stringBody_fffd [of "jsonStringBody s @ dquote # rest"]
      show ?thesis
        using False d inv ih by (simp add: prepend_def)
    next
      case valid: False
      show ?thesis
      proof (cases "r = 8232 \<or> r = 8233")
        case sep: True
        from False d valid sep "2.IH"(3) [of "(r, n)" r n]
        have ih: "stringBody (jsonStringBody (drop (n - 1) s) @ dquote # rest) =
            Some (decodedOf (drop (n - 1) s), rest)"
          by simp
        from stringBody_202x [OF sep, of "jsonStringBody (drop (n - 1) s) @ dquote # rest"]
        show ?thesis
          using False d valid sep ih by (auto simp: prepend_def)
      next
        case other: False
        from False d valid other "2.IH"(4) [of "(r, n)" r n]
        have ih: "stringBody (jsonStringBody (drop (n - 1) s) @ dquote # rest) =
            Some (decodedOf (drop (n - 1) s), rest)"
          by simp
        from False have hi: "(128 :: int) \<le> of_char c"
          by simp
        from DecodeRune_valid_high [OF hi d valid]
        have "\<forall>x\<in>set (take n (c # s)). (128 :: int) \<le> of_char x"
          by blast
        from stringBody_high [OF this, of "jsonStringBody (drop (n - 1) s) @ dquote # rest"]
        have "stringBody (take n (c # s) @ jsonStringBody (drop (n - 1) s) @ dquote # rest) =
            Some (take n (c # s) @ decodedOf (drop (n - 1) s), rest)"
          using ih by (simp add: prepend_def)
        then show ?thesis
          using False d valid other by auto
      qed
    qed
  qed
qed

lemma decodedOf_ascii: "\<forall>c\<in>set s. (of_char c :: int) < 128 \<Longrightarrow> decodedOf s = s"
  by (induction s) simp_all

lemma parseString_enc: "parseString (appendString s @ rest) = Some (decodedOf s, rest)"
  by (simp add: parseString_def appendString_def stringBody_enc)

text \<open>The reader accepts the numbers and literals, the members and the object.\<close>

lemma digitsOf_digits: "0 \<le> n \<Longrightarrow> \<forall>c\<in>set (digitsOf n). isDigit c"
proof (induction n rule: digitsOf.induct)
  case (1 n)
  show ?case
  proof (cases "n < 10")
    case True
    with "1.prems" show ?thesis
      by (simp add: digitsOf_small isDigit_digitChar)
  next
    case False
    with "1.prems" have "0 \<le> n div 10" by simp
    with "1.IH" [OF False] have "\<forall>c\<in>set (digitsOf (n div 10)). isDigit c" by simp
    then show ?thesis
      by (simp add: digitsOf_big [OF False] isDigit_digitChar)
  qed
qed

lemma digitsOf_nonempty: "digitsOf n \<noteq> []"
  by (subst digitsOf.simps) simp

lemma digitsOf_hd: "0 < n \<Longrightarrow> hd (digitsOf n) \<noteq> CHR ''0''"
proof (induction n rule: digitsOf.induct)
  case (1 n)
  show ?case
  proof (cases "n < 10")
    case True
    with "1.prems" show ?thesis
      by (simp add: digitsOf_small digitChar_eq_0)
  next
    case False
    then have "0 < n div 10" by simp
    with "1.IH" [OF False] have "hd (digitsOf (n div 10)) \<noteq> CHR ''0''" by simp
    then show ?thesis
      by (simp add: digitsOf_big [OF False] digitsOf_nonempty)
  qed
qed

lemma digitsOf_zero: "digitsOf 0 = ''0''"
  by code_simp

lemma minus_not_digit: "\<not> isDigit CHR ''-''"
  by code_simp

lemma parseNumber_digits:
  assumes "0 \<le> n" and "\<not> isDigit d"
  shows "takeWhile isDigit (digitsOf n @ d # rest) = digitsOf n"
    and "dropWhile isDigit (digitsOf n @ d # rest) = d # rest"
    and "\<not> (length (digitsOf n) > 1 \<and> hd (digitsOf n) = CHR ''0'')"
proof -
  from digitsOf_digits [OF assms(1)] have all: "\<And>x. x \<in> set (digitsOf n) \<Longrightarrow> isDigit x"
    by blast
  show "takeWhile isDigit (digitsOf n @ d # rest) = digitsOf n"
    using assms(2) by (simp add: takeWhile_append2 [OF all])
  show "dropWhile isDigit (digitsOf n @ d # rest) = d # rest"
    using assms(2) by (simp add: dropWhile_append2 [OF all])
  show "\<not> (length (digitsOf n) > 1 \<and> hd (digitsOf n) = CHR ''0'')"
  proof (cases "n = 0")
    case True
    then show ?thesis by (simp add: digitsOf_zero)
  next
    case False
    with assms(1) have "0 < n" by simp
    then show ?thesis using digitsOf_hd by blast
  qed
qed

lemma parseNumber_enc:
  assumes "\<not> isDigit d"
  shows "\<exists>v. parseNumber (FormatInt i @ d # rest) = Some (v, d # rest)"
proof (cases "i < 0")
  case True
  then have n: "0 \<le> - i" by simp
  from True have "FormatInt i @ d # rest = CHR ''-'' # digitsOf (- i) @ d # rest"
    by (simp add: FormatInt_def)
  then show ?thesis
    using parseNumber_digits(1,2) [OF n assms, of rest] parseNumber_digits(3) [OF n assms]
      digitsOf_nonempty [of "- i"]
    by (simp add: parseNumber_def Let_def)
next
  case False
  then have n: "0 \<le> i" by simp
  have "isDigit (hd (digitsOf i))"
    using digitsOf_digits [OF n] digitsOf_nonempty [of i] by simp
  then have hd: "hd (digitsOf i @ d # rest) \<noteq> CHR ''-''"
    using minus_not_digit digitsOf_nonempty [of i] by auto
  from False have "FormatInt i @ d # rest = digitsOf i @ d # rest"
    by (simp add: FormatInt_def)
  then show ?thesis
    using parseNumber_digits(1,2) [OF n assms, of rest] parseNumber_digits(3) [OF n assms]
      digitsOf_nonempty [of i] hd
    by (simp add: parseNumber_def Let_def)
qed

lemma digit_not_special:
  assumes "isDigit c \<or> c = CHR ''-''"
  shows "c \<noteq> dquote \<and> c \<noteq> CHR ''t'' \<and> c \<noteq> CHR ''f'' \<and> c \<noteq> CHR ''n''"
proof -
  have "\<forall>c. (isDigit c \<or> c = CHR ''-'') \<longrightarrow>
      c \<noteq> dquote \<and> c \<noteq> CHR ''t'' \<and> c \<noteq> CHR ''f'' \<and> c \<noteq> CHR ''n''"
    by code_simp
  with assms show ?thesis by blast
qed

lemma FormatInt_hd:
  "FormatInt i \<noteq> [] \<and> (isDigit (hd (FormatInt i)) \<or> hd (FormatInt i) = CHR ''-'')"
  using digitsOf_digits [of i] digitsOf_nonempty [of i]
  by (auto simp: FormatInt_def)

lemma parseValue_enc:
  assumes "jsonValue v = Inr enc" and "\<forall>e. v \<noteq> VError e" and "\<not> isDigit d"
  shows "\<exists>jv. parseValue (enc @ d # rest) = Some (jv, d # rest)"
proof (cases v)
  case (VString s)
  with assms(1) have "enc = dquote # jsonStringBody s @ [dquote]"
    by (auto simp: jsonValue_def appendString_def)
  then show ?thesis
    by (simp add: parseValue_def stringBody_enc)
next
  case (VInt i)
  with assms(1) have enc: "enc = FormatInt i"
    by (auto simp: jsonValue_def)
  obtain c t where ct: "FormatInt i = c # t"
    using FormatInt_hd [of i] by (cases "FormatInt i") auto
  with FormatInt_hd [of i] have "isDigit c \<or> c = CHR ''-''"
    by simp
  from digit_not_special [OF this] parseNumber_enc [OF assms(3), of i rest] ct enc
  show ?thesis
    by (simp add: parseValue_def)
next
  case (VBool b)
  with assms(1) have "enc = (if b then ''true'' else ''false'')"
    by (auto simp: jsonValue_def)
  then show ?thesis
    by (simp add: parseValue_def dquote_def)
next
  case VNil
  with assms(1) have "enc = ''null''"
    by (auto simp: jsonValue_def)
  then show ?thesis
    by (simp add: parseValue_def dquote_def)
next
  case (VError m)
  with assms(2) show ?thesis by simp
next
  case (VChan a)
  with assms(1) show ?thesis
    by (simp add: jsonValue_def)
qed

lemma comma_brace_not_digit: "\<not> isDigit CHR '',''" "\<not> isDigit CHR ''}''"
  by code_simp+

lemma parseMembers_step:
  assumes "jsonValue (index m k) = Inr v" and "\<forall>e. index m k \<noteq> VError e"
    and "d = CHR '','' \<or> d = CHR ''}''"
  shows "\<exists>jv. parseMembers (Suc n) ((appendString k @ '':'' @ v) @ d # rest) =
     (if d = CHR ''}'' then Some ([(decodedOf k, jv)], rest)
      else case parseMembers n rest of
             None \<Rightarrow> None
           | Some (kvs, r) \<Rightarrow> Some ((decodedOf k, jv) # kvs, r))"
proof -
  from assms(3) have nd: "\<not> isDigit d"
    using comma_brace_not_digit by auto
  from parseValue_enc [OF assms(1,2) nd, of rest]
  obtain jv where jv: "parseValue (v @ d # rest) = Some (jv, d # rest)"
    by blast
  have "parseString ((appendString k @ '':'' @ v) @ d # rest) =
      Some (decodedOf k, CHR '':'' # v @ d # rest)"
    using parseString_enc [of k "'':'' @ v @ d # rest"] by simp
  with jv assms(3) show ?thesis
    by (intro exI [of _ jv]) auto
qed

lemma parseMembers_enc:
  assumes "encodeMembers m ks = Inr ms" and "ks \<noteq> []"
    and "\<forall>k\<in>set ks. \<forall>e. index m k \<noteq> VError e" and "length ks \<le> n"
  shows "\<exists>kvs. parseMembers n (joinComma ms @ CHR ''}'' # rest) = Some (kvs, rest) \<and>
               map fst kvs = map decodedOf ks"
  using assms
proof (induction ks arbitrary: ms n)
  case Nil
  then show ?case by simp
next
  case (Cons k ks)
  from Cons.prems(1) obtain v ms' where v: "jsonValue (index m k) = Inr v"
    and ms': "encodeMembers m ks = Inr ms'" and ms: "ms = (appendString k @ '':'' @ v) # ms'"
    by (auto split: sum.splits)
  from Cons.prems(3) have ne: "\<forall>e. index m k \<noteq> VError e"
    by simp
  from Cons.prems(4) obtain n' where n: "n = Suc n'" "length ks \<le> n'"
    by (cases n) auto
  show ?case
  proof (cases ks)
    case Nil
    with ms' have "ms' = []" by simp
    with ms have j: "joinComma ms @ CHR ''}'' # rest = (appendString k @ '':'' @ v) @ CHR ''}'' # rest"
      by simp
    from parseMembers_step [OF v ne, of "CHR ''}''" n' rest] Nil
    show ?thesis
      unfolding j n(1) by auto
  next
    case (Cons k2 ks2)
    with ms' obtain y ys where ys: "ms' = y # ys"
      by (auto split: sum.splits)
    with ms have j: "joinComma ms @ CHR ''}'' # rest =
        (appendString k @ '':'' @ v) @ CHR '','' # joinComma ms' @ CHR ''}'' # rest"
      by simp
    have "ks \<noteq> []" using Cons by simp
    from Cons.IH [OF ms' this _ n(2)] Cons.prems(3)
    obtain kvs where kvs: "parseMembers n' (joinComma ms' @ CHR ''}'' # rest) = Some (kvs, rest)"
      "map fst kvs = map decodedOf ks"
      by auto
    from parseMembers_step [OF v ne, of "CHR '',''" n' "joinComma ms' @ CHR ''}'' # rest"] kvs
    show ?thesis
      unfolding j n(1) by auto
  qed
qed

lemma encodeMembers_length:
  "encodeMembers m ks = Inr ms \<Longrightarrow> length ks \<le> length (joinComma ms) \<and>
     (ks \<noteq> [] \<longrightarrow> joinComma ms \<noteq> [] \<and> hd (joinComma ms) = dquote)"
proof (induction ks arbitrary: ms)
  case Nil
  then show ?case by simp
next
  case (Cons k ks)
  from Cons.prems obtain v ms' where
    ms': "encodeMembers m ks = Inr ms'" and ms: "ms = (appendString k @ '':'' @ v) # ms'"
    by (auto split: sum.splits)
  from Cons.IH [OF ms'] have "length ks \<le> length (joinComma ms')"
    by simp
  then show ?case
    unfolding ms by (cases ms') (simp_all add: appendString_def)
qed

lemma json_Marshal_parses:
  assumes "json_Marshal m = Inr out" and "\<forall>k. \<forall>e. index m k \<noteq> VError e"
  shows "\<exists>kvs. parseObject out = Some kvs \<and>
     map fst kvs = map decodedOf (sorted_list_of_fset (fmdom m))"
proof -
  define ks where "ks = sorted_list_of_fset (fmdom m)"
  from assms(1) obtain ms where ms: "encodeMembers m ks = Inr ms"
    and out: "out = ''{'' @ joinComma ms @ ''}''"
    by (auto simp: json_Marshal_def ks_def split: sum.splits)
  show ?thesis
  proof (cases "ks = []")
    case True
    with ms have "ms = []" by simp
    with out True show ?thesis
      by (simp add: parseObject_def ks_def [symmetric])
  next
    case False
    from encodeMembers_length [OF ms] False
    have len: "length ks \<le> length (joinComma ms @ ''}'')"
      and hd: "joinComma ms \<noteq> []" "hd (joinComma ms) = dquote"
      by simp_all
    from hd have nb: "joinComma ms @ ''}'' \<noteq> ''}''"
      by simp
    from parseMembers_enc [OF ms False _ len, of "[]"] assms(2)
    obtain kvs where "parseMembers (length (joinComma ms @ ''}'')) (joinComma ms @ ''}'') = Some (kvs, [])"
      "map fst kvs = map decodedOf ks"
      by auto
    with out nb show ?thesis
      by (simp add: parseObject_def ks_def [symmetric])
  qed
qed

text \<open>The encoder writes no newline.\<close>

lemma escape_no_LF: "\<forall>c. CHR 0x0A \<notin> set (jsonEscapeByte c)"
  by code_simp

lemma hexChar_no_LF: "CHR 0x0A \<noteq> hexChar (8232 mod 16) \<and> CHR 0x0A \<noteq> hexChar (8233 mod 16)"
  by code_simp

lemma jsonStringBody_no_LF: "CHR 0x0A \<notin> set (jsonStringBody s)"
proof (induction s rule: jsonStringBody.induct)
  case 1
  show ?case by simp
next
  case (2 c s)
  show ?case
  proof (cases "(of_char c :: int) < 128")
    case True
    with "2.IH"(1) have ih: "CHR 0x0A \<notin> set (jsonStringBody s)" by simp
    have "htmlSafe c \<Longrightarrow> c \<noteq> CHR 0x0A"
      by (auto simp: htmlSafe_def)
    with True ih escape_no_LF show ?thesis
      by auto
  next
    case False
    obtain r n where d: "DecodeRune (c # s) = (r, n)"
      by (cases "DecodeRune (c # s)")
    show ?thesis
    proof (cases "r = RuneError \<and> n = 1")
      case inv: True
      from False d inv "2.IH"(2) [of "(r, n)" r n]
      have "CHR 0x0A \<notin> set (jsonStringBody s)" by simp
      with False d inv show ?thesis
        by (simp add: backslash_def)
    next
      case valid: False
      show ?thesis
      proof (cases "r = 8232 \<or> r = 8233")
        case sep: True
        from False d valid sep "2.IH"(3) [of "(r, n)" r n]
        have "CHR 0x0A \<notin> set (jsonStringBody (drop (n - 1) s))" by simp
        with False d valid sep hexChar_no_LF show ?thesis
          by (auto simp: backslash_def)
      next
        case other: False
        from False d valid other "2.IH"(4) [of "(r, n)" r n]
        have ih: "CHR 0x0A \<notin> set (jsonStringBody (drop (n - 1) s))" by simp
        from False have hi: "(128 :: int) \<le> of_char c" by simp
        from DecodeRune_valid_high [OF hi d valid]
        have "\<forall>x\<in>set (take n (c # s)). (128 :: int) \<le> of_char x" by blast
        then have "CHR 0x0A \<notin> set (take n (c # s))" by auto
        with False d valid other ih show ?thesis
          by auto
      qed
    qed
  qed
qed

lemma digit_not_LF: "isDigit c \<Longrightarrow> c \<noteq> CHR 0x0A"
proof -
  have "\<forall>c. isDigit c \<longrightarrow> c \<noteq> CHR 0x0A" by code_simp
  then show "isDigit c \<Longrightarrow> c \<noteq> CHR 0x0A" by blast
qed

lemma FormatInt_no_LF: "CHR 0x0A \<notin> set (FormatInt i)"
proof (cases "i < 0")
  case True
  then have "0 \<le> - i" by simp
  from digitsOf_digits [OF this] digit_not_LF True show ?thesis
    by (auto simp: FormatInt_def)
next
  case False
  then have "0 \<le> i" by simp
  from digitsOf_digits [OF this] digit_not_LF False show ?thesis
    by (auto simp: FormatInt_def)
qed

lemma jsonValue_no_LF: "jsonValue v = Inr enc \<Longrightarrow> CHR 0x0A \<notin> set enc"
  using jsonStringBody_no_LF FormatInt_no_LF
  by (cases v) (auto simp: jsonValue_def appendString_def dquote_def split: if_splits)

lemma encodeMembers_no_LF:
  "encodeMembers m ks = Inr ms \<Longrightarrow> CHR 0x0A \<notin> set (joinComma ms)"
proof (induction ks arbitrary: ms)
  case Nil
  then show ?case by simp
next
  case (Cons k ks)
  from Cons.prems obtain v ms' where v: "jsonValue (index m k) = Inr v"
    and ms': "encodeMembers m ks = Inr ms'" and ms: "ms = (appendString k @ '':'' @ v) # ms'"
    by (auto split: sum.splits)
  from jsonValue_no_LF [OF v] jsonStringBody_no_LF [of k]
  have "CHR 0x0A \<notin> set (appendString k @ '':'' @ v)"
    by (simp add: appendString_def dquote_def)
  with Cons.IH [OF ms'] show ?case
    unfolding ms by (cases ms') simp_all
qed

lemma json_Marshal_no_LF: "json_Marshal m = Inr out \<Longrightarrow> CHR 0x0A \<notin> set out"
  using encodeMembers_no_LF
  by (auto simp: json_Marshal_def split: sum.splits)

section \<open>Properties of the output line\<close>

lemma errorText_not_error: "errorText v \<noteq> VError m"
  by (cases v) (simp_all add: errorText_def)

lemma formatData_no_error:
  "index (formatData rt f hp (fst (copyEntry e (deref hp (Fields f)) p))) k \<noteq> VError m"
  by (simp add: formatData_copy index_def errorText_not_error split: option.splits)

lemma formatData_keys:
  "fmdom (formatData rt f hp (fst (copyEntry e (deref hp (Fields f)) p))) =
     {|''message'', ''level'', ''@timestamp''|} |\<union>| fmdom (overlaidFields (deref hp (Fields f)) e)"
  by (auto simp: formatData_copy FieldKeyMsg_def FieldKeyLevel_def FieldKeyTime_def)

lemma static_keys_overlaid: "k |\<in>| fmdom static \<Longrightarrow> k |\<in>| fmdom (overlaidFields static e)"
  by (simp add: overlaidFields_def)

lemma DefaultFormatter_has_version:
  assumes "DefaultFormatter (Some a) hp0 = Returns (f, hp)"
  shows "''@version'' |\<in>| fmdom (deref hp (Fields f))"
proof -
  from setDefaults_Some [of "[''@version'']" a hp0]
  obtain hp' where hp': "setDefaults [''@version''] (Some a) hp0 = Returns hp'"
    "\<forall>k. fmlookup (hp' a) k =
        (if k |\<in>| fmdom (hp0 a) then fmlookup (hp0 a) k
         else if k \<in> set [''@version''] then Some (index logstashFields k) else None)"
    by blast
  have f: "Fields f = Some a" "hp = hp'"
    using assms unfolding DefaultFormatter_def logstash_keys hp'(1) by auto
  from hp'(2) have "fmlookup (hp' a) ''@version'' \<noteq> None"
    by (auto simp: fmlookup_dom_iff)
  then show ?thesis
    using f by (simp add: deref_def fmlookup_dom_iff fmdom_notI)
qed

lemma key_texts:
  "decodedOf ''@timestamp'' = ''@timestamp''" "decodedOf ''level'' = ''level''"
  "decodedOf ''message'' = ''message''" "decodedOf ''@version'' = ''@version''"
  by (simp_all add: decodedOf_ascii)

text \<open>
  Claim C9, amended. Whatever \<open>Format\<close> returns without an error is one line: text
  without a newline, then a newline. The text reads as a JSON object that has the keys
  \<open>@timestamp\<close>, \<open>level\<close> and \<open>message\<close>, and the key \<open>@version\<close> whenever the
  formatter's static fields have it, as they do for every formatter that
  \<open>DefaultFormatter\<close> returns.
\<close>

theorem Format_output_json_line:
  assumes "fst (Format rt f hp e p) = Inr out"
  shows "\<exists>body kvs.
     out = body @ [CHR 0x0A] \<and> CHR 0x0A \<notin> set body \<and> parseObject body = Some kvs \<and>
     ''@timestamp'' \<in> fst ` set kvs \<and> ''level'' \<in> fst ` set kvs \<and>
     ''message'' \<in> fst ` set kvs \<and>
     (''@version'' |\<in>| fmdom (deref hp (Fields f)) \<longrightarrow> ''@version'' \<in> fst ` set kvs) \<and>
     (\<forall>a hp0. DefaultFormatter (Some a) hp0 = Returns (f, hp) \<longrightarrow>
        ''@version'' \<in> fst ` set kvs)"
proof -
  define data where "data = formatData rt f hp (fst (copyEntry e (deref hp (Fields f)) p))"
  from assms obtain body where m: "json_Marshal data = Inr body" and out: "out = body @ [CHR 0x0A]"
    by (auto simp: Format_marshals_formatData data_def split: sum.splits)
  have ne: "\<forall>k. \<forall>m. index data k \<noteq> VError m"
    by (simp add: data_def formatData_no_error)
  from json_Marshal_parses [OF m ne]
  obtain kvs where kvs: "parseObject body = Some kvs"
    "map fst kvs = map decodedOf (sorted_list_of_fset (fmdom data))"
    by blast
  have keys: "k |\<in>| fmdom data \<Longrightarrow> decodedOf k \<in> fst ` set kvs" for k
  proof -
    assume "k |\<in>| fmdom data"
    then have "decodedOf k \<in> set (map decodedOf (sorted_list_of_fset (fmdom data)))"
      by simp
    with kvs(2) show ?thesis
      by (metis set_map)
  qed
  have dom: "fmdom data =
      {|''message'', ''level'', ''@timestamp''|} |\<union>| fmdom (overlaidFields (deref hp (Fields f)) e)"
    by (simp add: data_def formatData_keys)
  have a: "''@timestamp'' \<in> fst ` set kvs" "''level'' \<in> fst ` set kvs"
    "''message'' \<in> fst ` set kvs"
    using keys [of "''@timestamp''"] keys [of "''level''"] keys [of "''message''"] dom
    by (simp_all add: key_texts)
  have v: "''@version'' \<in> fst ` set kvs" if "''@version'' |\<in>| fmdom (deref hp (Fields f))"
    using keys [of "''@version''"] dom static_keys_overlaid [OF that, of e]
    by (simp add: key_texts)
  have "CHR 0x0A \<notin> set body"
    using m by (rule json_Marshal_no_LF)
  with out kvs(1) a v DefaultFormatter_has_version show ?thesis
    by blast
qed

text \<open>
  Claim C9, as stated: every line has the key \<open>@version\<close>. A formatter built as
  \<open>&LogAgentFormatter{}\<close>, the way the package's documentation offers for other
  configurations, has no static fields; the line it returns for an entry without fields
  reads as an object with the keys \<open>@timestamp\<close>, \<open>level\<close> and \<open>message\<close> only.
\<close>

theorem Format_output_version_counterexample:
  "map_option (map fst)
     (case fst (Format sortedEnv bareFmt emptyHeap helloEntry []) of
        Inl err \<Rightarrow> None
      | Inr out \<Rightarrow> parseObject (butlast out)) =
   Some [''@timestamp'', ''level'', ''message'']"
  by code_simp

theorem Format_output_json_line_witness:
  "\<exists>out body kvs.
     fst (Format sortedEnv defaultFmt versionHeap (keysEntry ''message bla bla'') []) = Inr out \<and>
     ''@version'' |\<in>| fmdom (deref versionHeap (Fields defaultFmt)) \<and>
     out = body @ [CHR 0x0A] \<and> CHR 0x0A \<notin> set body \<and> parseObject body = Some kvs \<and>
     ''@timestamp'' \<in> fst ` set kvs \<and> ''level'' \<in> fst ` set kvs \<and>
     ''message'' \<in> fst ` set kvs \<and> ''@version'' \<in> fst ` set kvs"
proof -
  have "\<not> isl (fst (Format sortedEnv defaultFmt versionHeap (keysEntry ''message bla bla'') []))"
    by code_simp
  then obtain out where
    out: "fst (Format sortedEnv defaultFmt versionHeap (keysEntry ''message bla bla'') []) = Inr out"
    by (cases "fst (Format sortedEnv defaultFmt versionHeap (keysEntry ''message bla bla'') [])")
      auto
  have v: "''@version'' |\<in>| fmdom (deref versionHeap (Fields defaultFmt))"
    by code_simp
  from Format_output_json_line [OF out] v out show ?thesis
    by blast
qed

end
